(* ===== verification/Prelude.thy ===== *)
theory Prelude
  imports Main "HOL-Library.Word" "HOL-Library.Signed_Division"
begin

text \<open>
  What every component shares: the machine integers of the Rust code as words, the two
  ways a Rust function can fail to return a value (an error result, a panic) with a third
  for a loop that does not end, the standard library's little-endian byte conversions, the
  number formatting that the error messages use, and lemmas on words and lists.
\<close>

unbundle bit_operations_syntax

section \<open>Machine integers\<close>

type_synonym u8 = "8 word"
type_synonym u16 = "16 word"
type_synonym u32 = "32 word"
type_synonym u64 = "64 word"

text \<open>The collection of laws that rewrite a concrete memory into the flat one it stands for,
  and the collection of facts that say an operation keeps a well-formedness invariant.\<close>

named_theorems mem_laws \<open>reads of a memory after writes\<close>
named_theorems keeps_wf \<open>operations keep well-formedness\<close>
named_theorems dispatch_defs \<open>definitions of the opcode constants\<close>

section \<open>Failures as values\<close>

text \<open>\<^verbatim>\<open>CpuError\<close> of \<^verbatim>\<open>rv32im/src/cpu.rs\<close>. The text a \<^verbatim>\<open>CustomOp\<close> error carries is the
  formatted string itself.\<close>

datatype cpu_error =
    IllegalInstruction u32 u32
  | EBreak u32
  | ECall u32
  | StepLimitExceeded u32
  | CustomOp string

text \<open>A call ends with a value, with an error result, with a panic of the thread (with the
  panic's message), or not at all.\<close>

datatype fault = Failed cpu_error | Panicked string | Diverged

type_synonym 'a res = "fault + 'a"

text \<open>The \<^verbatim>\<open>?\<close> operator on a result without state.\<close>

definition bind_res :: "'a res \<Rightarrow> ('a \<Rightarrow> 'b res) \<Rightarrow> 'b res" where
  "bind_res r f = (case r of Inl e \<Rightarrow> Inl e | Inr v \<Rightarrow> f v)"

lemma bind_res_simps [simp]:
  "bind_res (Inl e) f = Inl e"
  "bind_res (Inr v) f = f v"
  by (simp_all add: bind_res_def)

lemma bind_res_Inr_iff: "bind_res r f = Inr w \<longleftrightarrow> (\<exists>v. r = Inr v \<and> f v = Inr w)"
  by (cases r) auto

section \<open>Lists\<close>

text \<open>\<^verbatim>\<open>Vec::resize(n, 0)\<close>: truncate or pad with zeroes.\<close>

definition resize_zero :: "nat \<Rightarrow> 'a::zero list \<Rightarrow> 'a list" where
  "resize_zero n bs = take n bs @ replicate (n - length bs) 0"

lemma length_resize_zero [simp]: "length (resize_zero n bs) = n"
  by (simp add: resize_zero_def)

lemma resize_zero_same [simp]: "resize_zero (length bs) bs = bs"
  by (simp add: resize_zero_def)

lemma nth_resize_zero:
  "i < n \<Longrightarrow> resize_zero n bs ! i = (if i < length bs then bs ! i else 0)"
  by (auto simp: resize_zero_def nth_append)

section \<open>Little-endian bytes\<close>

text \<open>\<^verbatim>\<open>BigUint::from_bytes_le\<close>: the number a little-endian byte sequence stands for.\<close>

primrec le_val :: "u8 list \<Rightarrow> nat" where
  "le_val [] = 0"
| "le_val (b # bs) = unat b + 256 * le_val bs"

text \<open>The low \<open>n\<close> bytes of a number, least significant first.\<close>

primrec le_bytes :: "nat \<Rightarrow> nat \<Rightarrow> u8 list" where
  "le_bytes 0 v = []"
| "le_bytes (Suc n) v = of_nat v # le_bytes n (v div 256)"

text \<open>\<^verbatim>\<open>BigUint::to_bytes_le\<close>: the shortest representation, one zero byte for zero.\<close>

fun to_bytes_le :: "nat \<Rightarrow> u8 list" where
  "to_bytes_le v = (if v < 256 then [of_nat v] else of_nat v # to_bytes_le (v div 256))"

declare to_bytes_le.simps [simp del]

text \<open>\<^verbatim>\<open>uN::to_le_bytes\<close> and \<^verbatim>\<open>uN::from_le_bytes\<close>.\<close>

definition to_le_bytes :: "'a::len word \<Rightarrow> u8 list" where
  "to_le_bytes w = le_bytes (LENGTH('a) div 8) (unat w)"

definition from_le_bytes :: "u8 list \<Rightarrow> 'a::len word" where
  "from_le_bytes bs = of_nat (le_val bs)"

lemma unat_of_nat_u8 [simp]: "unat (of_nat n :: u8) = n mod 256"
  by (simp add: unat_of_nat)

lemma le_val_bound: "le_val bs < 256 ^ length bs"
proof (induction bs)
  case (Cons b bs)
  have "unat b < 256"
    using unsigned_less [of b] by simp
  with Cons show ?case
    by simp
qed simp

lemma length_le_bytes [simp]: "length (le_bytes n v) = n"
  by (induction n arbitrary: v) auto

lemma le_val_le_bytes: "le_val (le_bytes n v) = v mod 256 ^ n"
proof (induction n arbitrary: v)
  case (Suc n)
  have "v mod (256 * 256 ^ n) = 256 * (v div 256 mod 256 ^ n) + v mod 256"
    by (rule mod_mult2_eq)
  with Suc show ?case
    by simp
qed simp

lemma le_bytes_le_val [simp]: "le_bytes (length bs) (le_val bs) = bs"
proof (induction bs)
  case (Cons b bs)
  have b: "unat b < 256"
    using unsigned_less [of b] by simp
  then have "(unat b + 256 * le_val bs) div 256 = le_val bs"
    by simp
  moreover have "unat (of_nat (unat b + 256 * le_val bs) :: u8) = unat b"
    using b by (simp del: of_nat_add of_nat_mult)
  then have "(of_nat (unat b + 256 * le_val bs) :: u8) = b"
    by (simp only: word_unat_eq_iff)
  ultimately show ?case
    using Cons by simp
qed simp

lemma le_val_inj: "length xs = length ys \<Longrightarrow> le_val xs = le_val ys \<Longrightarrow> xs = ys"
  by (metis le_bytes_le_val)

lemma le_val_append: "le_val (xs @ ys) = le_val xs + 256 ^ length xs * le_val ys"
  by (induction xs) (auto simp: algebra_simps)

lemma le_val_replicate_0 [simp]: "le_val (replicate n 0) = 0"
  by (induction n) auto

lemma nth_le_bytes: "i < n \<Longrightarrow> le_bytes n v ! i = of_nat (v div 256 ^ i)"
proof (induction n arbitrary: v i)
  case (Suc n)
  show ?case
  proof (cases i)
    case (Suc j)
    with Suc.prems Suc.IH [of j "v div 256"] show ?thesis
      by (simp add: div_mult2_eq)
  qed simp
qed simp

lemma le_bytes_zero [simp]: "le_bytes n 0 = replicate n 0"
  by (induction n) auto

lemma resize_to_bytes_le: "resize_zero n (to_bytes_le v) = le_bytes n v"
proof (induction n arbitrary: v)
  case 0
  show ?case
    by (simp add: resize_zero_def)
next
  case (Suc n)
  show ?case
  proof (cases "v < 256")
    case True
    then show ?thesis
      by (simp add: to_bytes_le.simps [of v] resize_zero_def)
  next
    case False
    with Suc show ?thesis
      by (simp add: to_bytes_le.simps [of v] resize_zero_def)
  qed
qed

lemma length_to_le_bytes [simp]: "length (to_le_bytes (w :: 'a::len word)) = LENGTH('a) div 8"
  by (simp add: to_le_bytes_def)

lemma from_to_le_bytes:
  assumes "8 dvd LENGTH('a)"
  shows "from_le_bytes (to_le_bytes (w :: 'a::len word)) = w"
proof -
  have "(256::nat) ^ (LENGTH('a) div 8) = 2 ^ LENGTH('a)"
    using assms power_mult [of "2::nat" 8 "LENGTH('a) div 8"] by simp
  then show ?thesis
    by (simp add: from_le_bytes_def to_le_bytes_def le_val_le_bytes)
qed

section \<open>Words\<close>

lemma and_mask_unat: "unat (a AND (2 ^ n - 1) :: 'a::len word) = unat a mod 2 ^ n"
proof -
  have "unat (a AND (2 ^ n - 1)) = take_bit n (unat a)"
    by (simp only: mask_eq_exp_minus_1 [symmetric] take_bit_eq_mask [symmetric]
        unsigned_take_bit_eq)
  then show ?thesis
    by (simp only: take_bit_eq_mod)
qed

lemma bit_small: "unat w < 2 ^ n \<Longrightarrow> bit (w :: 'a::len word) k \<Longrightarrow> k < n"
proof -
  assume small: "unat w < 2 ^ n" and "bit w k"
  then have "bit (unat w) k"
    by (simp add: bit_unsigned_iff)
  moreover have "take_bit n (unat w) = unat w"
    using small by (simp add: take_bit_nat_eq_self)
  ultimately show "k < n"
    by (metis bit_take_bit_iff)
qed

lemma shift_or_add:
  fixes w :: "'a::len word"
  assumes "unat w < 2 ^ n"
  shows "w OR push_bit n v = w + push_bit n v"
proof -
  have "\<not> bit w k \<or> \<not> bit (push_bit n v) k" for k
    using bit_small [OF assms, of k] by (auto simp: bit_push_bit_iff)
  then show ?thesis
    by (simp add: disjunctive_add)
qed

text \<open>The bits of a little-endian byte sequence are the bits of its bytes.\<close>

lemma bit_le_val: "bit (le_val bs) n \<longleftrightarrow> n div 8 < length bs \<and> bit (bs ! (n div 8)) (n mod 8)"
proof (induction bs arbitrary: n)
  case (Cons b bs)
  have "le_val (b # bs) = unat b OR push_bit 8 (le_val bs)"
  proof -
    have "\<not> bit (unat b) k \<or> \<not> bit (push_bit 8 (le_val bs)) k" for k
      using bit_imp_le_length [of b k] by (auto simp: bit_push_bit_iff bit_unsigned_iff)
    then show ?thesis
      by (simp add: disjunctive_add [symmetric] push_bit_eq_mult)
  qed
  then have split: "bit (le_val (b # bs)) n \<longleftrightarrow> bit b n \<or> 8 \<le> n \<and> bit (le_val bs) (n - 8)"
    by (simp add: bit_or_iff bit_push_bit_iff bit_unsigned_iff)
  show ?case
  proof (cases "n < 8")
    case True
    with split show ?thesis
      by simp
  next
    case False
    then have "\<not> bit b n" "(b # bs) ! (n div 8) = bs ! ((n - 8) div 8)" "n div 8 = Suc ((n - 8) div 8)"
        "(n - 8) mod 8 = n mod 8"
      using bit_imp_le_length [of b n] by (auto simp: le_div_geq le_mod_geq)
    with split Cons False show ?thesis
      by simp
  qed
qed simp

lemma bit_from_le_bytes:
  "bit (from_le_bytes bs :: 'a::len word) n \<longleftrightarrow>
     n < LENGTH('a) \<and> n div 8 < length bs \<and> bit (bs ! (n div 8)) (n mod 8)"
proof -
  have "bit (from_le_bytes bs :: 'a word) n \<longleftrightarrow> bit (unat (from_le_bytes bs :: 'a word)) n"
    by (simp add: bit_unsigned_iff)
  also have "\<dots> \<longleftrightarrow> n < LENGTH('a) \<and> bit (le_val bs) n"
    by (simp add: from_le_bytes_def unsigned_of_nat bit_take_bit_iff)
  finally show ?thesis
    by (simp add: bit_le_val)
qed

lemma bytes_bit_eqI:
  fixes bs cs :: "u8 list"
  assumes "length bs = length cs"
    and "\<And>n. n < 8 * length bs \<Longrightarrow> bit (bs ! (n div 8)) (n mod 8) = bit (cs ! (n div 8)) (n mod 8)"
  shows "bs = cs"
proof (rule nth_equalityI)
  fix i
  assume i: "i < length bs"
  show "bs ! i = cs ! i"
  proof (rule bit_word_eqI)
    fix k
    assume "k < LENGTH(8)"
    with i assms(2) [of "8 * i + k"] show "bit (bs ! i) k = bit (cs ! i) k"
      by simp
  qed
qed (rule assms(1))

section \<open>Arithmetic on bytes\<close>

lemma ucast_of_int_down:
  "LENGTH('b) \<le> LENGTH('a) \<Longrightarrow> ucast (word_of_int k :: 'a::len word) = (word_of_int k :: 'b::len word)"
  by transfer (simp add: min_absorb1)

lemma unat_drop_bit: "unat (drop_bit n w) = unat (w :: 'a::len word) div 2 ^ n"
proof -
  have "unat (drop_bit n w) = drop_bit n (unat w)"
    by (rule bit_eqI) (auto simp: bit_unsigned_iff bit_drop_bit_eq bit_imp_le_length)
  then show ?thesis
    by (simp only: drop_bit_eq_div)
qed

lemma byte_split_int:
  fixes u z M :: int
  assumes "0 \<le> u" "u < 256" "0 \<le> M"
  shows "(u + 256 * z) mod (256 * M) = 256 * (z mod M) + u"
  using assms by (simp add: zmod_zmult2_eq)

lemma byte_split_nat:
  "(u + 256 * z) mod (256 * M) = u mod 256 + 256 * ((z + u div 256) mod (M::nat))"
proof -
  have "(u + 256 * z) div 256 = z + u div 256"
    by simp
  then show ?thesis
    unfolding mod_mult2_eq by simp
qed

lemma le_val_sum: "le_val bs = (\<Sum>i<length bs. unat (bs ! i) * 256 ^ i)"
proof (induction bs)
  case (Cons b bs)
  have "(\<Sum>i<length bs. unat (bs ! i) * 256 ^ Suc i) = 256 * le_val bs"
    by (simp add: Cons sum_distrib_left ac_simps)
  then show ?case
    by (simp add: sum.lessThan_Suc_shift del: sum.lessThan_Suc)
qed simp

lemma le_val_take_mod: "n \<le> length bs \<Longrightarrow> le_val bs mod 256 ^ n = le_val (take n bs)"
proof -
  assume "n \<le> length bs"
  then have "le_val bs = le_val (take n bs) + 256 ^ n * le_val (drop n bs)"
    using le_val_append [of "take n bs" "drop n bs"] by simp
  then show ?thesis
    using le_val_bound [of "take n bs"] \<open>n \<le> length bs\<close> by simp
qed

lemma sum_mod_cong:
  assumes "\<And>i. i \<in> A \<Longrightarrow> f i mod M = g i mod (M :: nat)"
  shows "sum f A mod M = sum g A mod M"
proof -
  have "(\<Sum>i\<in>A. f i mod M) = (\<Sum>i\<in>A. g i mod M)"
    using assms by (rule sum.cong [OF refl])
  then show ?thesis
    by (metis mod_sum_eq)
qed

lemma byte_order:
  fixes x y p q :: nat
  assumes "x < 256" "y < 256"
  shows "x + 256 * p < y + 256 * q \<longleftrightarrow> p < q \<or> p = q \<and> x < y"
    and "x + 256 * p = y + 256 * q \<longleftrightarrow> p = q \<and> x = y"
proof -
  have "x + 256 * p < y + 256 * q" if "p < q"
    using that assms by linarith
  moreover have "y + 256 * q < x + 256 * p" if "q < p"
    using that assms by linarith
  ultimately show "x + 256 * p < y + 256 * q \<longleftrightarrow> p < q \<or> p = q \<and> x < y"
    and "x + 256 * p = y + 256 * q \<longleftrightarrow> p = q \<and> x = y"
    by (cases p q rule: linorder_cases; force)+
qed

text \<open>A bit position and a shift amount, each split into bytes and bits.\<close>

lemma div_mod_8: "k = 8 * i + m \<Longrightarrow> m < 8 \<Longrightarrow> k div 8 = i \<and> k mod 8 = (m::nat)"
  by simp

lemma split_bits:
  fixes i m q bo :: nat
  assumes "m < 8" "bo < 8"
  defines "n \<equiv> 8 * i + m" and "amt \<equiv> 8 * q + bo"
  shows "amt \<le> n \<longleftrightarrow> q < i \<or> q = i \<and> bo \<le> m"
    and "amt \<le> n \<Longrightarrow> bo \<le> m \<Longrightarrow> (n - amt) div 8 = i - q \<and> (n - amt) mod 8 = m - bo"
    and "amt \<le> n \<Longrightarrow> m < bo \<Longrightarrow> (n - amt) div 8 = i - q - 1 \<and> (n - amt) mod 8 = m + 8 - bo"
    and "m + bo < 8 \<Longrightarrow> (n + amt) div 8 = i + q \<and> (n + amt) mod 8 = m + bo"
    and "8 \<le> m + bo \<Longrightarrow> (n + amt) div 8 = i + q + 1 \<and> (n + amt) mod 8 = m + bo - 8"
proof -
  show "amt \<le> n \<longleftrightarrow> q < i \<or> q = i \<and> bo \<le> m"
    using assms(1,2) unfolding n_def amt_def by linarith
  show "(n - amt) div 8 = i - q \<and> (n - amt) mod 8 = m - bo" if "amt \<le> n" "bo \<le> m"
    using assms(1,2) that unfolding n_def amt_def by (intro div_mod_8; linarith)
  show "(n - amt) div 8 = i - q - 1 \<and> (n - amt) mod 8 = m + 8 - bo" if "amt \<le> n" "m < bo"
    using assms(1,2) that unfolding n_def amt_def by (intro div_mod_8; linarith)
  show "(n + amt) div 8 = i + q \<and> (n + amt) mod 8 = m + bo" if "m + bo < 8"
    using that unfolding n_def amt_def by (intro div_mod_8) simp_all
  show "(n + amt) div 8 = i + q + 1 \<and> (n + amt) mod 8 = m + bo - 8" if "8 \<le> m + bo"
    using assms(1,2) that unfolding n_def amt_def by (intro div_mod_8) simp_all
qed

text \<open>A word of whole bytes and its byte sequence determine each other.\<close>

lemma unat_from_le_bytes:
  assumes "8 * length bs = LENGTH('a::len)"
  shows "unat (from_le_bytes bs :: 'a word) = le_val bs"
proof -
  have "(256::nat) ^ length bs = 2 ^ LENGTH('a)"
    using power_mult [of "2::nat" 8 "length bs"] assms by simp
  then show ?thesis
    using le_val_bound [of bs] by (simp add: from_le_bytes_def unat_of_nat)
qed

lemma to_from_le_bytes:
  assumes "8 * length bs = LENGTH('a::len)"
  shows "to_le_bytes (from_le_bytes bs :: 'a word) = bs"
proof -
  have "LENGTH('a) div 8 = length bs"
    using assms by simp
  then show ?thesis
    by (simp add: to_le_bytes_def unat_from_le_bytes [OF assms])
qed

end
