(* ===== verification/Decode.thy ===== *)
theory Decode
  imports Prelude
begin

text \<open>
  The instruction decoder of \<^verbatim>\<open>crates/rv32im/src/decode.rs\<close>: fields, sign-extended
  immediates and the opcode constants. An \<open>i32\<close> shift to the right is \<open>signed_drop_bit\<close>.
  The lemmas say that the decoder inverts the instruction formats of the RISC-V manual, which
  are written down as encoders.
\<close>

section \<open>Fields\<close>

definition opcode :: "u32 \<Rightarrow> u32" where
  "opcode insn = insn AND 0x7f"

definition rd :: "u32 \<Rightarrow> u32" where
  "rd insn = drop_bit 7 insn AND 0x1f"

definition funct3 :: "u32 \<Rightarrow> u32" where
  "funct3 insn = drop_bit 12 insn AND 0x7"

definition rs1 :: "u32 \<Rightarrow> u32" where
  "rs1 insn = drop_bit 15 insn AND 0x1f"

definition rs2 :: "u32 \<Rightarrow> u32" where
  "rs2 insn = drop_bit 20 insn AND 0x1f"

definition funct7 :: "u32 \<Rightarrow> u32" where
  "funct7 insn = drop_bit 25 insn AND 0x7f"

section \<open>Immediates\<close>

definition imm_i :: "u32 \<Rightarrow> u32" where
  "imm_i insn = signed_drop_bit 20 insn"

definition imm_s :: "u32 \<Rightarrow> u32" where
  "imm_s insn =
     (let upper = signed_drop_bit 25 insn;
          lower = drop_bit 7 insn AND 0x1f
      in push_bit 5 upper OR lower)"

definition imm_b :: "u32 \<Rightarrow> u32" where
  "imm_b insn =
     (let sign = signed_drop_bit 31 insn;
          bit11 = drop_bit 7 insn AND 1;
          bits10_5 = drop_bit 25 insn AND 0x3f;
          bits4_1 = drop_bit 8 insn AND 0xf
      in push_bit 12 sign OR push_bit 11 bit11 OR push_bit 5 bits10_5 OR push_bit 1 bits4_1)"

definition imm_u :: "u32 \<Rightarrow> u32" where
  "imm_u insn = insn AND 0xfffff000"

definition imm_j :: "u32 \<Rightarrow> u32" where
  "imm_j insn =
     (let sign = signed_drop_bit 31 insn;
          bits19_12 = drop_bit 12 insn AND 0xff;
          bit11 = drop_bit 20 insn AND 1;
          bits10_1 = drop_bit 21 insn AND 0x3ff
      in push_bit 20 sign OR push_bit 12 bits19_12 OR push_bit 11 bit11 OR push_bit 1 bits10_1)"

definition shamt :: "u32 \<Rightarrow> u32" where
  "shamt insn = rs2 insn AND 0x1f"

section \<open>Opcodes\<close>

definition OPCODE_LUI :: u32 where [dispatch_defs]: "OPCODE_LUI = 0b0110111"
definition OPCODE_AUIPC :: u32 where [dispatch_defs]: "OPCODE_AUIPC = 0b0010111"
definition OPCODE_JAL :: u32 where [dispatch_defs]: "OPCODE_JAL = 0b1101111"
definition OPCODE_JALR :: u32 where [dispatch_defs]: "OPCODE_JALR = 0b1100111"
definition OPCODE_BRANCH :: u32 where [dispatch_defs]: "OPCODE_BRANCH = 0b1100011"
definition OPCODE_LOAD :: u32 where [dispatch_defs]: "OPCODE_LOAD = 0b0000011"
definition OPCODE_STORE :: u32 where [dispatch_defs]: "OPCODE_STORE = 0b0100011"
definition OPCODE_OP_IMM :: u32 where [dispatch_defs]: "OPCODE_OP_IMM = 0b0010011"
definition OPCODE_OP :: u32 where [dispatch_defs]: "OPCODE_OP = 0b0110011"
definition OPCODE_MISC_MEM :: u32 where [dispatch_defs]: "OPCODE_MISC_MEM = 0b0001111"
definition OPCODE_SYSTEM :: u32 where [dispatch_defs]: "OPCODE_SYSTEM = 0b1110011"
definition OPCODE_CUSTOM_0 :: u32 where [dispatch_defs]: "OPCODE_CUSTOM_0 = 0b0001011"
definition OPCODE_CUSTOM_1 :: u32 where [dispatch_defs]: "OPCODE_CUSTOM_1 = 0b0101011"

section \<open>Register fields are register numbers\<close>

lemma unat_and_le: "unat (a AND b :: 'a::len word) \<le> unat b"
  by (metis AND_upper2 nat_mono uint_and uint_ge_0 unat_eq_nat_uint)

lemma reg_fields_less [simp]:
  "unat (rd insn) < 32" "unat (rs1 insn) < 32" "unat (rs2 insn) < 32"
  using unat_and_le [of "drop_bit 7 insn" "0x1f"] unat_and_le [of "drop_bit 15 insn" "0x1f"]
    unat_and_le [of "drop_bit 20 insn" "0x1f"]
  by (simp_all add: rd_def rs1_def rs2_def)

lemma funct_less [simp]: "unat (funct3 insn) < 8" "unat (funct7 insn) < 128" "unat (shamt insn) < 32"
  using unat_and_le [of "drop_bit 12 insn" "0x7"] unat_and_le [of "drop_bit 25 insn" "0x7f"]
    unat_and_le [of "rs2 insn" "0x1f"]
  by (simp_all add: funct3_def funct7_def shamt_def)

section \<open>The instruction formats of the RISC-V manual\<close>

definition R_type :: "u32 \<Rightarrow> u32 \<Rightarrow> u32 \<Rightarrow> u32 \<Rightarrow> u32 \<Rightarrow> u32 \<Rightarrow> u32" where
  "R_type f7 r2 r1 f3 d opc =
     push_bit 25 f7 OR push_bit 20 r2 OR push_bit 15 r1 OR push_bit 12 f3 OR push_bit 7 d OR opc"

text \<open>The immediates are given as signed integers; the formats pick their bits.\<close>

definition imm_bits :: "nat \<Rightarrow> nat \<Rightarrow> int \<Rightarrow> u32" where
  "imm_bits lo n k = word_of_int (take_bit n (drop_bit lo k))"

definition I_type :: "int \<Rightarrow> u32 \<Rightarrow> u32 \<Rightarrow> u32 \<Rightarrow> u32 \<Rightarrow> u32" where
  "I_type k r1 f3 d opc =
     push_bit 20 (imm_bits 0 12 k) OR push_bit 15 r1 OR push_bit 12 f3 OR push_bit 7 d OR opc"

definition S_type :: "int \<Rightarrow> u32 \<Rightarrow> u32 \<Rightarrow> u32 \<Rightarrow> u32 \<Rightarrow> u32" where
  "S_type k r2 r1 f3 opc =
     push_bit 25 (imm_bits 5 7 k) OR push_bit 20 r2 OR push_bit 15 r1 OR push_bit 12 f3
       OR push_bit 7 (imm_bits 0 5 k) OR opc"

definition B_type :: "int \<Rightarrow> u32 \<Rightarrow> u32 \<Rightarrow> u32 \<Rightarrow> u32 \<Rightarrow> u32" where
  "B_type k r2 r1 f3 opc =
     push_bit 31 (imm_bits 12 1 k) OR push_bit 25 (imm_bits 5 6 k) OR push_bit 20 r2
       OR push_bit 15 r1 OR push_bit 12 f3 OR push_bit 8 (imm_bits 1 4 k)
       OR push_bit 7 (imm_bits 11 1 k) OR opc"

definition U_type :: "int \<Rightarrow> u32 \<Rightarrow> u32 \<Rightarrow> u32" where
  "U_type k d opc = push_bit 12 (imm_bits 12 20 k) OR push_bit 7 d OR opc"

definition J_type :: "int \<Rightarrow> u32 \<Rightarrow> u32 \<Rightarrow> u32" where
  "J_type k d opc =
     push_bit 31 (imm_bits 20 1 k) OR push_bit 21 (imm_bits 1 10 k) OR push_bit 20 (imm_bits 11 1 k)
       OR push_bit 12 (imm_bits 12 8 k) OR push_bit 7 d OR opc"

lemmas type_defs = R_type_def I_type_def S_type_def B_type_def U_type_def J_type_def

lemmas field_defs = opcode_def rd_def rs1_def rs2_def funct3_def funct7_def

lemma bit_imm_bits [bit_simps]:
  "bit (imm_bits lo n k) i \<longleftrightarrow> i < 32 \<and> i < n \<and> bit k (lo + i)"
  by (auto simp: imm_bits_def bit_simps)

text \<open>Decoding, bit by bit.\<close>

lemma masks:
  "0x7f = (mask 7 :: u32)" "0x1f = (mask 5 :: u32)" "0x7 = (mask 3 :: u32)"
  "1 = (mask 1 :: u32)" "0x3f = (mask 6 :: u32)" "0xf = (mask 4 :: u32)"
  "0xff = (mask 8 :: u32)" "0x3ff = (mask 10 :: u32)"
  by (simp_all add: mask_eq_exp_minus_1)

lemma bit_fields [bit_simps]:
  "bit (opcode w) i \<longleftrightarrow> i < 7 \<and> bit w i"
  "bit (rd w) i \<longleftrightarrow> i < 5 \<and> bit w (7 + i)"
  "bit (funct3 w) i \<longleftrightarrow> i < 3 \<and> bit w (12 + i)"
  "bit (rs1 w) i \<longleftrightarrow> i < 5 \<and> bit w (15 + i)"
  "bit (rs2 w) i \<longleftrightarrow> i < 5 \<and> bit w (20 + i)"
  "bit (funct7 w) i \<longleftrightarrow> i < 7 \<and> bit w (25 + i)"
  unfolding field_defs masks by (auto simp: bit_simps)

lemma bit_imm_i [bit_simps]: "bit (imm_i w) i \<longleftrightarrow> bit w (if 12 \<le> i \<and> i < 32 then 31 else 20 + i)"
  by (simp add: imm_i_def bit_simps)

text \<open>The scattered immediates are checked one bit position at a time.\<close>

lemma less_32_cases:
  "i < 32 \<Longrightarrow> (i :: nat) \<in> {0, 1, 2, 3, 4, 5, 6, 7, 8, 9, 10, 11, 12, 13, 14, 15, 16, 17, 18, 19,
     20, 21, 22, 23, 24, 25, 26, 27, 28, 29, 30, 31}"
  by (simp add: eval_nat_numeral less_Suc_eq)

lemmas imm_bit_defs = Let_def masks bit_or_iff bit_push_bit_iff bit_and_iff bit_mask_iff
  bit_signed_drop_bit_iff bit_drop_bit_eq

lemma bit_imm_s [bit_simps]:
  "bit (imm_s w) i \<longleftrightarrow> i < 32 \<and> bit w (if i < 5 then 7 + i else if i < 11 then 20 + i else 31)"
proof (cases "i < 32")
  case True
  then show ?thesis
    unfolding imm_s_def imm_bit_defs by (drule_tac less_32_cases) (elim insertE emptyE, simp_all)
qed (auto dest: bit_imp_le_length)

lemma bit_imm_b [bit_simps]:
  "bit (imm_b w) i \<longleftrightarrow> i < 32 \<and> 0 < i \<and>
     bit w (if i < 5 then 7 + i else if i < 11 then 20 + i else if i = 11 then 7 else 31)"
proof (cases "i < 32")
  case True
  then show ?thesis
    unfolding imm_b_def imm_bit_defs by (drule_tac less_32_cases) (elim insertE emptyE, simp_all)
qed (auto dest: bit_imp_le_length)

lemma bit_imm_u [bit_simps]: "bit (imm_u w) i \<longleftrightarrow> 12 \<le> i \<and> bit w i"
proof -
  have m: "(0xfffff000 :: u32) = push_bit 12 (mask 20)"
    by (simp add: mask_eq_exp_minus_1 push_bit_eq_mult)
  show ?thesis
    unfolding imm_u_def m imm_bit_defs by (auto dest: bit_imp_le_length)
qed

lemma bit_imm_j [bit_simps]:
  "bit (imm_j w) i \<longleftrightarrow> i < 32 \<and> 0 < i \<and>
     bit w (if i < 11 then 20 + i else if i = 11 then 20 else if i < 20 then i else 31)"
proof (cases "i < 32")
  case True
  then show ?thesis
    unfolding imm_j_def imm_bit_defs by (drule_tac less_32_cases) (elim insertE emptyE, simp_all)
qed (auto dest: bit_imp_le_length)

text \<open>The encoders put every field and immediate bit where the decoder looks for it.\<close>

lemma not_bit_small: "unat w < 2 ^ n \<Longrightarrow> n \<le> i \<Longrightarrow> \<not> bit (w :: u32) i"
  using bit_small [of w n i] by auto

lemma sign_bits:
  fixes k :: int
  assumes "- (2 ^ n) \<le> k" "k < 2 ^ n" "n \<le> i"
  shows "bit k i \<longleftrightarrow> bit k n"
proof -
  have "k = signed_take_bit n k"
    using assms by (simp add: signed_take_bit_int_eq_self)
  then show ?thesis
    using assms(3) bit_signed_take_bit_iff [of n k i] bit_signed_take_bit_iff [of n k n]
    by (simp add: min_def split: if_splits)
qed

lemmas encode_simps = type_defs bit_or_iff bit_push_bit_iff bit_imm_bits

lemma word32_eqI:
  assumes "\<forall>i \<in> {0, 1, 2, 3, 4, 5, 6, 7, 8, 9, 10, 11, 12, 13, 14, 15, 16, 17, 18, 19, 20, 21,
     22, 23, 24, 25, 26, 27, 28, 29, 30, 31}. bit (a :: u32) i \<longleftrightarrow> bit b i"
  shows "a = b"
proof (rule bit_word_eqI)
  fix i
  assume "i < LENGTH(32)"
  then have "i < 32"
    by simp
  from assms less_32_cases [OF this] show "bit a i \<longleftrightarrow> bit b i"
    by (rule bspec)
qed

lemma R_type_fields:
  assumes "unat d < 32" "unat r1 < 32" "unat r2 < 32" "unat f3 < 8" "unat f7 < 128" "unat opc < 128"
  shows "opcode (R_type f7 r2 r1 f3 d opc) = opc" "rd (R_type f7 r2 r1 f3 d opc) = d"
    "rs1 (R_type f7 r2 r1 f3 d opc) = r1" "rs2 (R_type f7 r2 r1 f3 d opc) = r2"
    "funct3 (R_type f7 r2 r1 f3 d opc) = f3" "funct7 (R_type f7 r2 r1 f3 d opc) = f7"
proof -
  note nb = not_bit_small [of d 5] not_bit_small [of r1 5] not_bit_small [of r2 5]
    not_bit_small [of f3 3] not_bit_small [of f7 7] not_bit_small [of opc 7]
  show "opcode (R_type f7 r2 r1 f3 d opc) = opc" "rd (R_type f7 r2 r1 f3 d opc) = d"
    "rs1 (R_type f7 r2 r1 f3 d opc) = r1" "rs2 (R_type f7 r2 r1 f3 d opc) = r2"
    "funct3 (R_type f7 r2 r1 f3 d opc) = f3" "funct7 (R_type f7 r2 r1 f3 d opc) = f7"
    by (rule word32_eqI, simp add: assms nb bit_fields encode_simps)+
qed

lemma I_type_fields:
  assumes "unat d < 32" "unat r1 < 32" "unat f3 < 8" "unat opc < 128"
    and "- (2 ^ 11) \<le> k" "k < 2 ^ 11"
  shows "opcode (I_type k r1 f3 d opc) = opc" "rd (I_type k r1 f3 d opc) = d"
    "rs1 (I_type k r1 f3 d opc) = r1" "funct3 (I_type k r1 f3 d opc) = f3"
    "imm_i (I_type k r1 f3 d opc) = word_of_int k"
proof -
  note nb = not_bit_small [of d 5] not_bit_small [of r1 5]
    not_bit_small [of f3 3] not_bit_small [of opc 7]
  have sb: "bit k i \<longleftrightarrow> bit k 11" if "11 < i" for i
    using sign_bits [of 11 k i] assms(5,6) that by simp
  show "opcode (I_type k r1 f3 d opc) = opc" "rd (I_type k r1 f3 d opc) = d"
    "rs1 (I_type k r1 f3 d opc) = r1" "funct3 (I_type k r1 f3 d opc) = f3"
    by (rule word32_eqI, simp add: assms nb bit_fields encode_simps)+
  show "imm_i (I_type k r1 f3 d opc) = word_of_int k"
    by (rule word32_eqI, simp add: assms nb sb bit_imm_i encode_simps bit_word_of_int_iff)
qed

lemma S_type_fields:
  assumes "unat r1 < 32" "unat r2 < 32" "unat f3 < 8" "unat opc < 128"
    and "- (2 ^ 11) \<le> k" "k < 2 ^ 11"
  shows "opcode (S_type k r2 r1 f3 opc) = opc" "rs1 (S_type k r2 r1 f3 opc) = r1"
    "rs2 (S_type k r2 r1 f3 opc) = r2" "funct3 (S_type k r2 r1 f3 opc) = f3"
    "imm_s (S_type k r2 r1 f3 opc) = word_of_int k"
proof -
  note nb = not_bit_small [of r1 5] not_bit_small [of r2 5]
    not_bit_small [of f3 3] not_bit_small [of opc 7]
  have sb: "bit k i \<longleftrightarrow> bit k 11" if "11 < i" for i
    using sign_bits [of 11 k i] assms(5,6) that by simp
  show "opcode (S_type k r2 r1 f3 opc) = opc" "rs1 (S_type k r2 r1 f3 opc) = r1"
    "rs2 (S_type k r2 r1 f3 opc) = r2" "funct3 (S_type k r2 r1 f3 opc) = f3"
    by (rule word32_eqI, simp add: assms nb bit_fields encode_simps)+
  show "imm_s (S_type k r2 r1 f3 opc) = word_of_int k"
    by (rule word32_eqI, simp add: assms nb sb bit_imm_s encode_simps bit_word_of_int_iff)
qed

lemma B_type_fields:
  assumes "unat r1 < 32" "unat r2 < 32" "unat f3 < 8" "unat opc < 128"
    and "- (2 ^ 12) \<le> k" "k < 2 ^ 12" "even k"
  shows "opcode (B_type k r2 r1 f3 opc) = opc" "rs1 (B_type k r2 r1 f3 opc) = r1"
    "rs2 (B_type k r2 r1 f3 opc) = r2" "funct3 (B_type k r2 r1 f3 opc) = f3"
    "imm_b (B_type k r2 r1 f3 opc) = word_of_int k"
proof -
  note nb = not_bit_small [of r1 5] not_bit_small [of r2 5]
    not_bit_small [of f3 3] not_bit_small [of opc 7]
  have sb: "bit k i \<longleftrightarrow> bit k 12" if "12 < i" for i
    using sign_bits [of 12 k i] assms(5,6) that by simp
  have ev: "\<not> bit k 0"
    using assms(7) by (simp add: bit_0)
  show "opcode (B_type k r2 r1 f3 opc) = opc" "rs1 (B_type k r2 r1 f3 opc) = r1"
    "rs2 (B_type k r2 r1 f3 opc) = r2" "funct3 (B_type k r2 r1 f3 opc) = f3"
    by (rule word32_eqI, simp add: assms nb bit_fields encode_simps)+
  show "imm_b (B_type k r2 r1 f3 opc) = word_of_int k"
    by (rule word32_eqI, simp add: assms nb sb ev bit_imm_b encode_simps bit_word_of_int_iff
        flip: numeral_2_eq_2)
qed

lemma U_type_fields:
  assumes "unat d < 32" "unat opc < 128" and "take_bit 12 k = 0"
  shows "opcode (U_type k d opc) = opc" "rd (U_type k d opc) = d"
    "imm_u (U_type k d opc) = word_of_int k"
proof -
  note nb = not_bit_small [of d 5] not_bit_small [of opc 7]
  have lo: "\<not> bit k i" if "i < 12" for i
    using assms(3) that by (metis bit_0_eq bit_take_bit_iff bot_apply bot_bool_def)
  show "opcode (U_type k d opc) = opc" "rd (U_type k d opc) = d"
    by (rule word32_eqI, simp add: assms nb bit_fields encode_simps)+
  show "imm_u (U_type k d opc) = word_of_int k"
    by (rule word32_eqI, simp add: assms nb lo bit_imm_u encode_simps bit_word_of_int_iff)
qed

lemma J_type_fields:
  assumes "unat d < 32" "unat opc < 128"
    and "- (2 ^ 20) \<le> k" "k < 2 ^ 20" "even k"
  shows "opcode (J_type k d opc) = opc" "rd (J_type k d opc) = d"
    "imm_j (J_type k d opc) = word_of_int k"
proof -
  note nb = not_bit_small [of d 5] not_bit_small [of opc 7]
  have sb: "bit k i \<longleftrightarrow> bit k 20" if "20 < i" for i
    using sign_bits [of 20 k i] assms(3,4) that by simp
  have ev: "\<not> bit k 0"
    using assms(5) by (simp add: bit_0)
  show "opcode (J_type k d opc) = opc" "rd (J_type k d opc) = d"
    by (rule word32_eqI, simp add: assms nb bit_fields encode_simps)+
  show "imm_j (J_type k d opc) = word_of_int k"
    by (rule word32_eqI, simp add: assms nb sb ev bit_imm_j encode_simps bit_word_of_int_iff
        flip: numeral_2_eq_2)
qed

end
