(* ===== verification/Memory.thy ===== *)
theory Memory
  imports Prelude
begin

text \<open>
  The sparse paged memory of \<^verbatim>\<open>crates/rv32im/src/memory.rs\<close>: a map from page numbers to
  4096-byte pages, filled on the first write. The flat memory it stands for is the function
  \<open>read_u8 m\<close>; every operation is related to it, the aligned fast paths of \<open>read_u32\<close>
  and \<open>write_u32\<close> included. The locale \<open>byte_memory\<close> states what the rest of the
  program relies on (a byte written is read back, the other bytes keep their value) and derives
  the laws of byte sequences from it.
\<close>

section \<open>State and operations\<close>

definition PAGE_BITS :: nat where
  "PAGE_BITS = 12"

definition PAGE_SIZE :: nat where
  "PAGE_SIZE = 2 ^ PAGE_BITS"

definition PAGE_MASK :: u32 where
  "PAGE_MASK = of_nat PAGE_SIZE - 1"

record memory =
  pages :: "u32 \<rightharpoonup> u8 list"

definition new_memory :: memory where
  "new_memory = \<lparr>pages = Map.empty\<rparr>"

definition page_idx :: "u32 \<Rightarrow> u32" where
  "page_idx addr = drop_bit PAGE_BITS addr"

definition page_off :: "u32 \<Rightarrow> nat" where
  "page_off addr = unat (addr AND PAGE_MASK)"

text \<open>\<open>page_mut\<close> hands out the page to write to, allocated as zeroes if it is missing; the
  writers store the page back.\<close>

definition page_mut :: "memory \<Rightarrow> u32 \<Rightarrow> u8 list" where
  "page_mut m idx = (case pages m idx of Some p \<Rightarrow> p | None \<Rightarrow> replicate PAGE_SIZE 0)"

definition read_u8 :: "memory \<Rightarrow> u32 \<Rightarrow> u8" where
  "read_u8 m addr = (case pages m (page_idx addr) of Some p \<Rightarrow> p ! page_off addr | None \<Rightarrow> 0)"

definition write_u8 :: "memory \<Rightarrow> u32 \<Rightarrow> u8 \<Rightarrow> memory" where
  "write_u8 m addr val =
     (let idx = page_idx addr
      in m\<lparr>pages := (pages m)(idx \<mapsto> (page_mut m idx)[page_off addr := val])\<rparr>)"

definition read_u16 :: "memory \<Rightarrow> u32 \<Rightarrow> u16" where
  "read_u16 m addr =
     (let lo = ucast (read_u8 m addr);
          hi = ucast (read_u8 m (addr + 1))
      in lo OR push_bit 8 hi)"

definition read_u32 :: "memory \<Rightarrow> u32 \<Rightarrow> u32" where
  "read_u32 m addr =
     (if addr AND 3 = 0 then
        (case pages m (page_idx addr) of
           Some p \<Rightarrow> (let off = page_off addr
                      in from_le_bytes [p ! off, p ! (off + 1), p ! (off + 2), p ! (off + 3)])
         | None \<Rightarrow> 0)
      else
        (let b0 = ucast (read_u8 m addr);
             b1 = ucast (read_u8 m (addr + 1));
             b2 = ucast (read_u8 m (addr + 2));
             b3 = ucast (read_u8 m (addr + 3))
         in b0 OR push_bit 8 b1 OR push_bit 16 b2 OR push_bit 24 b3))"

definition write_u16 :: "memory \<Rightarrow> u32 \<Rightarrow> u16 \<Rightarrow> memory" where
  "write_u16 m addr val = write_u8 (write_u8 m addr (ucast val)) (addr + 1) (ucast (drop_bit 8 val))"

text \<open>The loop \<open>for (i, b) in bs.iter().enumerate()\<close>: the index of the byte is added to the
  start address with wrap-around.\<close>

primrec write_bytes_from :: "memory \<Rightarrow> u32 \<Rightarrow> nat \<Rightarrow> u8 list \<Rightarrow> memory" where
  "write_bytes_from m addr i [] = m"
| "write_bytes_from m addr i (b # bs) =
     write_bytes_from (write_u8 m (addr + of_nat i) b) addr (Suc i) bs"

definition write_u32 :: "memory \<Rightarrow> u32 \<Rightarrow> u32 \<Rightarrow> memory" where
  "write_u32 m addr val =
     (let bs = to_le_bytes val in
      if addr AND 3 = 0 then
        (let idx = page_idx addr; off = page_off addr; p = page_mut m idx
         in m\<lparr>pages := (pages m)(idx \<mapsto>
              p[off := bs ! 0, off + 1 := bs ! 1, off + 2 := bs ! 2, off + 3 := bs ! 3])\<rparr>)
      else write_bytes_from m addr 0 bs)"

definition write_slice :: "memory \<Rightarrow> u32 \<Rightarrow> u8 list \<Rightarrow> memory" where
  "write_slice m addr data = write_bytes_from m addr 0 data"

definition read_vec :: "memory \<Rightarrow> u32 \<Rightarrow> nat \<Rightarrow> u8 list" where
  "read_vec m addr len = map (\<lambda>i. read_u8 m (addr + of_nat i)) [0..<len]"

text \<open>Every stored page has exactly the size of the Rust array.\<close>

definition wf_memory :: "memory \<Rightarrow> bool" where
  "wf_memory m \<longleftrightarrow> (\<forall>idx p. pages m idx = Some p \<longrightarrow> length p = PAGE_SIZE)"

section \<open>Pages\<close>

lemma page_consts [simp]: "PAGE_BITS = 12" "PAGE_SIZE = 4096" "PAGE_MASK = 4095"
  by (simp_all add: PAGE_BITS_def PAGE_SIZE_def PAGE_MASK_def)

lemma unat_page_idx: "unat (page_idx a) = unat a div 4096"
proof -
  have "unat (page_idx a) = drop_bit 12 (unat a)"
    by (simp only: page_idx_def page_consts unat_drop_bit_eq)
  then show ?thesis
    by (simp add: drop_bit_eq_div)
qed

lemma page_off_mod: "page_off a = unat a mod 4096"
  using and_mask_unat [of a 12] by (simp add: page_off_def)

lemma page_off_less [simp]: "page_off a < 4096"
  by (simp add: page_off_mod)

lemma unat_page_split: "unat a = 4096 * unat (page_idx a) + page_off a"
  by (simp add: unat_page_idx page_off_mod)

lemma page_addr_eqI: "page_idx a = page_idx b \<Longrightarrow> page_off a = page_off b \<Longrightarrow> a = b"
  by (metis unat_page_split word_unat_eq_iff)

lemma aligned_iff: "(a :: u32) AND 3 = 0 \<longleftrightarrow> unat a mod 4 = 0"
  using and_mask_unat [of a 2] by (simp add: word_unat_eq_iff)

lemma unat_plus_small:
  fixes a :: u32
  assumes "unat a mod 4 = 0" "i < 4"
  shows "unat (a + of_nat i) = unat a + i"
proof -
  have "unat a < 4294967296"
    using unsigned_less [of a] by simp
  with assms have "unat a + i < 4294967296"
    by presburger
  with assms show ?thesis
    by (simp add: unat_word_ariths unat_of_nat)
qed

lemma page_arith:
  fixes k i :: nat
  assumes "i < 4"
  shows "(4 * k + i) div 4096 = k div 1024" "(4 * k + i) mod 4096 = 4 * (k mod 1024) + i"
proof -
  have d: "(4 * k + i) div 4 = k" and r: "(4 * k + i) mod 4 = i"
    using assms by simp_all
  show "(4 * k + i) div 4096 = k div 1024"
    using div_mult2_eq [of "4 * k + i" 4 1024] d by simp
  show "(4 * k + i) mod 4096 = 4 * (k mod 1024) + i"
    using mod_mult2_eq [of "4 * k + i" 4 1024] d r by simp
qed

lemma aligned_same_page:
  assumes "(a :: u32) AND 3 = 0" "i < 4"
  shows "page_idx (a + of_nat i) = page_idx a" "page_off (a + of_nat i) = page_off a + i"
proof -
  have a: "unat a mod 4 = 0"
    using assms by (simp add: aligned_iff)
  then obtain k where k: "unat a = 4 * k + 0"
    by (metis mult_div_mod_eq)
  show "page_idx (a + of_nat i) = page_idx a"
    using page_arith(1) [OF assms(2), of k] page_arith(1) [of 0 k]
    by (simp add: word_unat_eq_iff unat_page_idx unat_plus_small [OF a assms(2)] k)
  show "page_off (a + of_nat i) = page_off a + i"
    using page_arith(2) [OF assms(2), of k] page_arith(2) [of 0 k]
    by (simp add: page_off_mod unat_plus_small [OF a assms(2)] k)
qed

lemma aligned_off_bound: "(a :: u32) AND 3 = 0 \<Longrightarrow> i < 4 \<Longrightarrow> page_off a + i < 4096"
  using aligned_same_page(2) page_off_less by metis

section \<open>Single bytes: the memory is flat\<close>

lemma wf_new_memory [keeps_wf]: "wf_memory new_memory"
  by (simp add: wf_memory_def new_memory_def)

lemma length_page_mut [simp]: "wf_memory m \<Longrightarrow> length (page_mut m idx) = 4096"
  by (auto simp: page_mut_def wf_memory_def split: option.split)

lemma wf_write_u8 [keeps_wf]: "wf_memory m \<Longrightarrow> wf_memory (write_u8 m a v)"
  by (auto simp: wf_memory_def write_u8_def Let_def page_mut_def split: option.split)

lemma read_u8_page_mut: "read_u8 m a = page_mut m (page_idx a) ! page_off a"
  by (simp add: read_u8_def page_mut_def split: option.split)

lemma page_mut_write_u8:
  "page_mut (write_u8 m a v) idx =
     (if idx = page_idx a then (page_mut m (page_idx a))[page_off a := v] else page_mut m idx)"
  by (simp add: page_mut_def write_u8_def Let_def)

lemma read_u8_write_u8 [mem_laws]:
  assumes "wf_memory m"
  shows "read_u8 (write_u8 m a v) b = (if b = a then v else read_u8 m b)"
  using assms page_addr_eqI [of a b]
  by (auto simp: read_u8_page_mut page_mut_write_u8 nth_list_update)

lemma read_u8_new_memory [simp]: "read_u8 new_memory a = 0"
  by (simp add: read_u8_def new_memory_def)

section \<open>Byte sequences\<close>

text \<open>The specification of a block write: the bytes of \<open>bs\<close> lie over \<open>f\<close> from address
  \<open>a\<close> on, addresses wrapping around at the end of the 32-bit space.\<close>

definition overlay :: "(u32 \<Rightarrow> u8) \<Rightarrow> u32 \<Rightarrow> u8 list \<Rightarrow> u32 \<Rightarrow> u8" where
  "overlay f a bs b = (if unat (b - a) < length bs then bs ! unat (b - a) else f b)"

lemma offset_eq_iff:
  "i < 2 ^ 32 \<Longrightarrow> (b :: u32) = a + of_nat i \<longleftrightarrow> unat (b - a) = i"
proof -
  assume i: "i < 2 ^ 32"
  have "b = a + of_nat i \<longleftrightarrow> b - a = of_nat i"
    by (auto simp: algebra_simps)
  also have "\<dots> \<longleftrightarrow> unat (b - a) = i"
    using i by (simp add: word_unat_eq_iff unat_of_nat)
  finally show ?thesis .
qed

lemma unat_offset [simp]: "i < 4294967296 \<Longrightarrow> unat (of_nat i :: u32) = i"
  by (simp add: unat_of_nat)

text \<open>What a memory owes its clients: a write changes the byte it names and no other, and
  keeps the memory well formed. \<open>wrs\<close> is the byte-by-byte block writer.\<close>

locale byte_memory =
  fixes rd :: "'m \<Rightarrow> u32 \<Rightarrow> u8"
    and wr :: "'m \<Rightarrow> u32 \<Rightarrow> u8 \<Rightarrow> 'm"
    and ok :: "'m \<Rightarrow> bool"
    and wrs :: "'m \<Rightarrow> u32 \<Rightarrow> nat \<Rightarrow> u8 list \<Rightarrow> 'm"
  assumes rd_wr: "ok m \<Longrightarrow> rd (wr m a v) b = (if b = a then v else rd m b)"
    and ok_wr: "ok m \<Longrightarrow> ok (wr m a v)"
    and wrs_Nil: "wrs m a i [] = m"
    and wrs_Cons: "wrs m a i (v # bs) = wrs (wr m (a + of_nat i) v) a (Suc i) bs"
begin

lemma ok_wrs: "ok m \<Longrightarrow> ok (wrs m a i bs)"
  by (induction bs arbitrary: m i) (auto simp: wrs_Nil wrs_Cons ok_wr)

lemma rd_wrs_from:
  assumes "ok m" "i + length bs \<le> 2 ^ 32"
  shows "rd (wrs m a i bs) b =
    (if i \<le> unat (b - a) \<and> unat (b - a) < i + length bs then bs ! (unat (b - a) - i) else rd m b)"
  using assms
proof (induction bs arbitrary: m i)
  case (Cons v bs)
  have "b = a + of_nat i \<longleftrightarrow> unat (b - a) = i"
    using Cons.prems by (intro offset_eq_iff) simp
  with Cons show ?case
    by (auto simp: wrs_Cons ok_wr rd_wr nth_Cons' Suc_le_eq)
qed (auto simp: wrs_Nil)

lemma rd_wrs:
  "ok m \<Longrightarrow> length bs \<le> 2 ^ 32 \<Longrightarrow> rd (wrs m a 0 bs) = overlay (rd m) a bs"
  by (rule ext) (simp add: rd_wrs_from overlay_def)

lemma wrs_append: "wrs m a i (xs @ ys) = wrs (wrs m a i xs) a (i + length xs) ys"
  by (induction xs arbitrary: m i) (auto simp: wrs_Nil wrs_Cons)

lemma rd_back:
  assumes "ok m" "length bs \<le> 2 ^ 32"
  shows "map (\<lambda>i. rd (wrs m a 0 bs) (a + of_nat i)) [0..<length bs] = bs"
  using assms by (intro nth_equalityI) (auto simp: rd_wrs overlay_def)

end

interpretation flat: byte_memory read_u8 write_u8 wf_memory write_bytes_from
  by unfold_locales (auto simp: mem_laws keeps_wf)

lemmas wf_write_bytes_from [keeps_wf] = flat.ok_wrs

lemma wf_write_u16 [keeps_wf]: "wf_memory m \<Longrightarrow> wf_memory (write_u16 m a v)"
  by (simp add: write_u16_def keeps_wf)

lemma wf_write_slice [keeps_wf]: "wf_memory m \<Longrightarrow> wf_memory (write_slice m a bs)"
  by (simp add: write_slice_def keeps_wf)

lemma read_u8_write_slice [mem_laws]:
  "wf_memory m \<Longrightarrow> length bs \<le> 2 ^ 32 \<Longrightarrow> read_u8 (write_slice m a bs) = overlay (read_u8 m) a bs"
  by (simp add: write_slice_def flat.rd_wrs)

lemma length_read_vec [simp]: "length (read_vec m a n) = n"
  by (simp add: read_vec_def)

lemma nth_read_vec [simp]: "i < n \<Longrightarrow> read_vec m a n ! i = read_u8 m (a + of_nat i)"
  by (simp add: read_vec_def)

lemma read_vec_Suc: "read_vec m a (Suc n) = read_vec m a n @ [read_u8 m (a + of_nat n)]"
  by (simp add: read_vec_def)

lemma read_vec_small:
  "read_vec m a 2 = [read_u8 m a, read_u8 m (a + 1)]"
  "read_vec m a 4 = [read_u8 m a, read_u8 m (a + 1), read_u8 m (a + 2), read_u8 m (a + 3)]"
  by (simp_all add: eval_nat_numeral read_vec_Suc read_vec_def[of m a 0])

section \<open>Half-words and words\<close>

text \<open>The slow paths put bytes together with shifts and \<open>OR\<close>, the fast path with
  \<open>from_le_bytes\<close>: the same word.\<close>

lemma unat_u8_less [simp]: "unat (b :: u8) < 256"
  using unsigned_less [of b] by simp

lemma unat_u8_of_nat: "(of_nat (unat (b :: u8)) :: 'a::len word) = ucast b"
  by simp

lemma unat_ucast_u8: "8 \<le> LENGTH('a::len) \<Longrightarrow> unat (ucast (b :: u8) :: 'a word) = unat b"
proof -
  assume "8 \<le> LENGTH('a)"
  then have le: "(2::nat) ^ 8 \<le> 2 ^ LENGTH('a)"
    by (rule power_increasing) simp
  have "unat b < 2 ^ 8"
    by simp
  from less_le_trans [OF this le] have "unat b < 2 ^ LENGTH('a)" .
  then show ?thesis
    by (simp add: unsigned_ucast_eq take_bit_nat_eq_self)
qed

lemma from_le_bytes_Nil: "from_le_bytes [] = 0"
  by (simp add: from_le_bytes_def)

lemma from_le_bytes_Cons:
  "8 \<le> LENGTH('a::len) \<Longrightarrow>
   (from_le_bytes (b # bs) :: 'a word) = ucast b OR push_bit 8 (from_le_bytes bs)"
  using shift_or_add [of "ucast b :: 'a word" 8 "from_le_bytes bs"]
  by (simp add: unat_ucast_u8 from_le_bytes_def push_bit_eq_mult)

lemmas from_le_bytes_shifts = from_le_bytes_Cons from_le_bytes_Nil push_bit_or push_bit_push_bit

lemma read_u16_bytes [mem_laws]: "read_u16 m a = from_le_bytes (read_vec m a 2)"
  by (simp add: read_u16_def Let_def read_vec_small from_le_bytes_shifts)

lemma read_u32_bytes [mem_laws]: "read_u32 m a = from_le_bytes (read_vec m a 4)"
proof (cases "a AND 3 = 0")
  case True
  have "read_u8 m (a + of_nat i) = page_mut m (page_idx a) ! (page_off a + i)" if "i < 4" for i
    using aligned_same_page [OF True that] by (simp add: read_u8_page_mut)
  from this [of 0] this [of 1] this [of 2] this [of 3] show ?thesis
    using True aligned_off_bound [OF True, of 1] aligned_off_bound [OF True, of 2]
      aligned_off_bound [OF True, of 3] by (auto simp: read_u32_def Let_def read_vec_small page_mut_def
        from_le_bytes_def split: option.split)
next
  case False
  then show ?thesis
    by (simp add: read_u32_def Let_def read_vec_small from_le_bytes_shifts or.assoc)
qed

lemma ucast_drop_bit: "(ucast (drop_bit n w) :: u8) = of_nat (unat w div 2 ^ n)"
proof -
  have "(ucast (drop_bit n w) :: u8) = of_nat (unat (drop_bit n w))"
    by simp
  then show ?thesis
    by (simp only: unat_drop_bit_eq drop_bit_nat_def)
qed

lemma nth_to_le_bytes:
  "i < LENGTH('a) div 8 \<Longrightarrow> to_le_bytes (w :: 'a::len word) ! i = ucast (drop_bit (8 * i) w)"
  by (simp add: to_le_bytes_def nth_le_bytes ucast_drop_bit power_mult)

lemma list2: "length bs = 2 \<Longrightarrow> bs = [bs ! 0, bs ! 1]"
  by (auto simp: eval_nat_numeral length_Suc_conv)

lemma list4: "length bs = 4 \<Longrightarrow> bs = [bs ! 0, bs ! 1, bs ! 2, bs ! 3]"
  by (auto simp: eval_nat_numeral length_Suc_conv)

lemma write_u16_bytes: "write_u16 m a v = write_slice m a (to_le_bytes v)"
proof -
  have "to_le_bytes v = [to_le_bytes v ! 0, to_le_bytes v ! 1]"
    by (rule list2) simp
  then have "to_le_bytes v = [ucast v, ucast (drop_bit 8 v)]"
    by (simp add: nth_to_le_bytes)
  then show ?thesis
    by (simp add: write_u16_def write_slice_def)
qed


text \<open>The aligned fast path of \<open>write_u32\<close> leaves exactly the memory that four single writes
  leave.\<close>

lemma write_u32_bytes: "write_u32 m a v = write_slice m a (to_le_bytes v)"
proof (cases "a AND 3 = 0")
  case True
  have s: "write_u8 m' (a + of_nat i) b =
      m'\<lparr>pages := (pages m')(page_idx a \<mapsto> (page_mut m' (page_idx a))[page_off a + i := b])\<rparr>"
    if "i < 4" for m' i b
    using aligned_same_page [OF True that] by (simp add: write_u8_def Let_def)
  note s0 = s [of 0, simplified] and s1 = s [of 1, simplified]
    and s2 = s [of 2, simplified] and s3 = s [of 3, simplified]
  obtain b0 b1 b2 b3 where bs: "to_le_bytes v = [b0, b1, b2, b3]"
    using list4 [of "to_le_bytes v"] by auto
  have "write_slice m a [b0, b1, b2, b3] =
      write_u8 (write_u8 (write_u8 (write_u8 m a b0) (a + 1) b1) (a + 2) b2) (a + 3) b3"
    by (simp add: write_slice_def)
  also have "\<dots> = write_u32 m a v"
    unfolding s0 s1 s2 s3 by (simp add: write_u32_def True bs page_mut_def Let_def)
  finally show ?thesis
    by (simp add: bs)
qed (simp add: write_u32_def write_slice_def Let_def)

lemma wf_write_u32 [keeps_wf]: "wf_memory m \<Longrightarrow> wf_memory (write_u32 m a v)"
  by (simp add: write_u32_bytes keeps_wf)

lemma read_u8_write_u16 [mem_laws]:
  "wf_memory m \<Longrightarrow> read_u8 (write_u16 m a v) = overlay (read_u8 m) a (to_le_bytes v)"
  by (simp add: write_u16_bytes mem_laws)

lemma read_u8_write_u32 [mem_laws]:
  "wf_memory m \<Longrightarrow> read_u8 (write_u32 m a v) = overlay (read_u8 m) a (to_le_bytes v)"
  by (simp add: write_u32_bytes mem_laws)

lemma read_vec_eq_map: "read_vec m a n = map (\<lambda>i. read_u8 m (a + of_nat i)) [0..<n]"
  by (simp add: read_vec_def)

lemma read_vec_overlay:
  "read_u8 m' = overlay (read_u8 m) a bs \<Longrightarrow> length bs \<le> 2 ^ 32 \<Longrightarrow> read_vec m' a (length bs) = bs"
  by (rule nth_equalityI) (auto simp: overlay_def)

lemma read_vec_write_slice [mem_laws]:
  "wf_memory m \<Longrightarrow> length bs \<le> 2 ^ 32 \<Longrightarrow> read_vec (write_slice m a bs) a (length bs) = bs"
  by (rule read_vec_overlay) (simp_all add: mem_laws)

text \<open>Two address ranges that do not meet: no byte of the second is an offset into the first.\<close>

definition disjoint_ranges :: "u32 \<Rightarrow> nat \<Rightarrow> u32 \<Rightarrow> nat \<Rightarrow> bool" where
  "disjoint_ranges a n b k \<longleftrightarrow> (\<forall>j \<in> set [0..<k]. n \<le> unat (b + of_nat j - a))"

lemma read_vec_write_slice_disjoint:
  assumes "wf_memory m" "length bs \<le> 2 ^ 32" "disjoint_ranges a (length bs) b k"
  shows "read_vec (write_slice m a bs) b k = read_vec m b k"
  using assms by (intro nth_equalityI)
    (fastforce simp: mem_laws overlay_def disjoint_ranges_def dest: leD)+

section \<open>Properties\<close>

text \<open>C1. The paged memory is a flat byte memory: after copying a byte sequence of at most
  \<open>2 ^ 32\<close> bytes to an address (wrapping at the end of the address space) exactly the bytes of
  the range are replaced, whatever pages they lie on, the sequence reads back, and every stored
  page keeps its size.\<close>

theorem paged_memory_is_flat:
  assumes "wf_memory m" and "length data \<le> 2 ^ 32"
  shows "read_u8 (write_slice m addr data) = overlay (read_u8 m) addr data \<and>
    read_vec (write_slice m addr data) addr (length data) = data \<and>
    wf_memory (write_slice m addr data)"
  using assms by (simp add: mem_laws keeps_wf)

theorem paged_memory_is_flat_witness:
  "read_vec (write_slice new_memory 0xFFFFFFFE [1, 2, 3, 4]) 0xFFFFFFFE (length [1, 2, 3, 4 :: u8])
     = [1, 2, 3, 4]"
  using paged_memory_is_flat [OF wf_new_memory, of "[1, 2, 3, 4]" "0xFFFFFFFE"] by simp

text \<open>C2. The aligned single-page fast paths of the word accesses agree with byte-by-byte access
  at every address, and so do the half-word accesses: a read of two or four bytes is the
  little-endian value of the bytes, a write is the copy of its bytes, and what is written is read
  back, aligned or not.\<close>

theorem word_access_is_bytewise:
  assumes "wf_memory m"
  shows "read_u32 m addr = from_le_bytes (read_vec m addr 4) \<and>
    write_u32 m addr val = write_slice m addr (to_le_bytes val) \<and>
    read_u32 (write_u32 m addr val) addr = val \<and>
    read_u16 m addr = from_le_bytes (read_vec m addr 2) \<and>
    write_u16 m addr half = write_slice m addr (to_le_bytes half) \<and>
    read_u16 (write_u16 m addr half) addr = half"
proof -
  have "read_vec (write_slice m addr (to_le_bytes val)) addr (length (to_le_bytes val)) = to_le_bytes val"
    "read_vec (write_slice m addr (to_le_bytes half)) addr (length (to_le_bytes half)) = to_le_bytes half"
    using assms by (intro read_vec_write_slice; simp)+
  then show ?thesis
    by (simp add: read_u32_bytes write_u32_bytes read_u16_bytes write_u16_bytes from_to_le_bytes)
qed

theorem word_access_is_bytewise_witness:
  "read_u32 (write_u32 new_memory 0x1FFE 0xDEADBEEF) 0x1FFE = 0xDEADBEEF \<and>
   read_u16 (write_u16 new_memory 0xFFFFFFFF 0xBEEF) 0xFFFFFFFF = 0xBEEF"
  using word_access_is_bytewise [OF wf_new_memory] by blast

end
