(* ===== verification/Elf.thy ===== *)
theory Elf
  imports Prelude
begin

text \<open>
  The loader of \<^verbatim>\<open>crates/elf/src/lib.rs\<close>. The \<^verbatim>\<open>elf\<close> crate's \<^verbatim>\<open>minimal_parse\<close> is a
  parameter: it returns a parse error or the header fields and the program headers the loader
  reads. Slicing a file out of its bounds panics in Rust and is a panic here.
\<close>

section \<open>Data\<close>

record segment =
  vaddr :: u32
  mem_size :: u32
  writable :: bool
  executable :: bool
  seg_data :: "u8 list"

record loaded_program =
  entry :: u32
  segments :: "segment list"

datatype 'p elf_error =
    Parse 'p
  | NotElf32 u8
  | NotLittleEndian u8
  | NotRiscv u16
  | NotExec u16
  | NoProgramHeaders
  | SegmentSizeMismatch u64 u64

text \<open>What the loader reads of the third-party crate's \<^verbatim>\<open>ElfBytes\<close>: the file header and,
  where there is one, the program header table, already decoded.\<close>

record program_header =
  p_type :: u32
  p_flags :: u32
  p_offset :: u64
  p_vaddr :: u64
  p_filesz :: u64
  p_memsz :: u64

record elf_file =
  e_machine :: u16
  e_type :: u16
  e_entry :: u64
  phdrs :: "program_header list option"

text \<open>The constants of the ELF ABI.\<close>

definition ELFCLASS32 :: u8 where "ELFCLASS32 = 1"
definition ELFDATA2LSB :: u8 where "ELFDATA2LSB = 1"
definition EM_RISCV :: u16 where "EM_RISCV = 243"
definition ET_EXEC :: u16 where "ET_EXEC = 2"
definition PT_LOAD :: u32 where "PT_LOAD = 1"
definition PF_X :: u32 where "PF_X = 1"
definition PF_W :: u32 where "PF_W = 2"

text \<open>The loader ends with a program, an error result or a panic.\<close>

datatype 'p load_result = Loaded loaded_program | LoadError "'p elf_error" | LoadPanic

section \<open>Operations\<close>

text \<open>\<^verbatim>\<open>u32::saturating_add\<close>.\<close>

definition saturating_add :: "u32 \<Rightarrow> u32 \<Rightarrow> u32" where
  "saturating_add a b = (if unat a + unat b < 2 ^ 32 then a + b else - 1)"

definition memory_high_water :: "loaded_program \<Rightarrow> u32" where
  "memory_high_water prog =
     (case map (\<lambda>s. saturating_add (vaddr s) (mem_size s)) (segments prog) of
        [] \<Rightarrow> 0
      | n # ns \<Rightarrow> fold max ns n)"

text \<open>\<^verbatim>\<open>bytes[off..off + fsz].to_vec()\<close>, with 64-bit offsets: \<open>None\<close> is the panic of an
  overflowing sum or of a range outside the file. (Without overflow checks the sum wraps, and the
  range is then out of order, which panics as well.)\<close>

definition slice_bytes :: "u8 list \<Rightarrow> u64 \<Rightarrow> u64 \<Rightarrow> u8 list option" where
  "slice_bytes bytes off fsz =
     (if unat off + unat fsz < 2 ^ 64 \<and> unat off + unat fsz \<le> length bytes
      then Some (take (unat fsz) (drop (unat off) bytes)) else None)"

primrec load_phdrs :: "u8 list \<Rightarrow> program_header list \<Rightarrow> segment list
    \<Rightarrow> (segment list) + ('p elf_error) option" where
  "load_phdrs bytes [] segs = Inl segs"
| "load_phdrs bytes (ph # phs) segs =
     (if p_type ph \<noteq> PT_LOAD then load_phdrs bytes phs segs
      else if p_filesz ph > p_memsz ph
        then Inr (Some (SegmentSizeMismatch (p_filesz ph) (p_memsz ph)))
      else case slice_bytes bytes (p_offset ph) (p_filesz ph) of
          None \<Rightarrow> Inr None
        | Some data \<Rightarrow> load_phdrs bytes phs (segs @
            [\<lparr>vaddr = ucast (p_vaddr ph), mem_size = ucast (p_memsz ph),
              writable = (p_flags ph AND PF_W \<noteq> 0), executable = (p_flags ph AND PF_X \<noteq> 0),
              seg_data = data\<rparr>]))"

definition load_rv32_elf :: "(u8 list \<Rightarrow> 'p + elf_file) \<Rightarrow> u8 list \<Rightarrow> 'p load_result" where
  "load_rv32_elf minimal_parse bytes =
     (if length bytes \<ge> 6 \<and> bytes ! 4 \<noteq> ELFCLASS32 then LoadError (NotElf32 (bytes ! 4))
      else if length bytes \<ge> 6 \<and> bytes ! 5 \<noteq> ELFDATA2LSB
        then LoadError (NotLittleEndian (bytes ! 5))
      else case minimal_parse bytes of
          Inl e \<Rightarrow> LoadError (Parse e)
        | Inr ef \<Rightarrow>
            if e_machine ef \<noteq> EM_RISCV then LoadError (NotRiscv (e_machine ef))
            else if e_type ef \<noteq> ET_EXEC then LoadError (NotExec (e_type ef))
            else case phdrs ef of
                None \<Rightarrow> LoadError NoProgramHeaders
              | Some phs \<Rightarrow>
                  (case load_phdrs bytes phs [] of
                     Inl segs \<Rightarrow> Loaded \<lparr>entry = ucast (e_entry ef), segments = segs\<rparr>
                   | Inr (Some e) \<Rightarrow> LoadError e
                   | Inr None \<Rightarrow> LoadPanic))"

section \<open>What is loaded\<close>

text \<open>The specification: the segment a loadable header describes, and when it describes one.\<close>

definition loadable :: "program_header \<Rightarrow> bool" where
  "loadable ph \<longleftrightarrow> p_type ph = PT_LOAD"

definition sizes_ok :: "program_header \<Rightarrow> bool" where
  "sizes_ok ph \<longleftrightarrow> p_filesz ph \<le> p_memsz ph"

definition in_file :: "u8 list \<Rightarrow> program_header \<Rightarrow> bool" where
  "in_file bytes ph \<longleftrightarrow> unat (p_offset ph) + unat (p_filesz ph) < 2 ^ 64 \<and>
     unat (p_offset ph) + unat (p_filesz ph) \<le> length bytes"

definition segment_of :: "u8 list \<Rightarrow> program_header \<Rightarrow> segment" where
  "segment_of bytes ph =
     \<lparr>vaddr = ucast (p_vaddr ph), mem_size = ucast (p_memsz ph),
      writable = (p_flags ph AND PF_W \<noteq> 0), executable = (p_flags ph AND PF_X \<noteq> 0),
      seg_data = take (unat (p_filesz ph)) (drop (unat (p_offset ph)) bytes)\<rparr>"

definition good_header :: "u8 list \<Rightarrow> program_header \<Rightarrow> bool" where
  "good_header bytes ph \<longleftrightarrow> (loadable ph \<longrightarrow> sizes_ok ph \<and> in_file bytes ph)"

lemmas header_defs = loadable_def sizes_ok_def in_file_def good_header_def

lemma load_phdrs_good:
  "list_all (good_header bytes) phs \<Longrightarrow>
   load_phdrs bytes (phs @ rest) segs =
     load_phdrs bytes rest (segs @ map (segment_of bytes) (filter loadable phs))"
  by (induction phs arbitrary: segs)
    (auto simp: header_defs slice_bytes_def segment_of_def not_less)

lemma load_phdrs_all_good:
  "list_all (good_header bytes) phs \<Longrightarrow>
   load_phdrs bytes phs segs = Inl (segs @ map (segment_of bytes) (filter loadable phs))"
  using load_phdrs_good [of bytes phs "[]" segs] by simp

text \<open>The first header that is not good decides how the loader fails.\<close>

lemma load_phdrs_bad:
  "\<not> good_header bytes ph \<Longrightarrow>
   load_phdrs bytes (ph # rest) segs =
     Inr (if sizes_ok ph then None else Some (SegmentSizeMismatch (p_filesz ph) (p_memsz ph)))"
  by (auto simp: header_defs slice_bytes_def not_less)

lemma load_phdrs_cases:
  fixes bytes phs
  defines "r \<equiv> load_phdrs bytes phs [] :: segment list + 'p elf_error option"
  obtains (good) "list_all (good_header bytes) phs"
      "r = Inl (map (segment_of bytes) (filter loadable phs))"
    | (bad) pre ph post where "phs = pre @ ph # post" "list_all (good_header bytes) pre"
      "\<not> good_header bytes ph" "r =
        Inr (if sizes_ok ph then None else Some (SegmentSizeMismatch (p_filesz ph) (p_memsz ph)))"
proof (cases "list_all (good_header bytes) phs")
  case True
  then show ?thesis
    by (intro good) (simp_all add: r_def load_phdrs_all_good)
next
  case False
  then have "\<exists>x \<in> set phs. \<not> good_header bytes x"
    by (simp add: list_all_iff)
  then obtain pre ph post where s: "phs = pre @ ph # post" "\<not> good_header bytes ph"
    "\<forall>y \<in> set pre. good_header bytes y"
    using split_list_first_prop [of phs "\<lambda>x. \<not> good_header bytes x"] by blast
  then have "list_all (good_header bytes) pre"
    by (simp add: list_all_iff)
  with s show ?thesis
    by (intro bad [of pre ph post])
      (simp_all add: r_def load_phdrs_good load_phdrs_bad del: load_phdrs.simps)
qed

definition ident_ok :: "u8 list \<Rightarrow> bool" where
  "ident_ok bytes \<longleftrightarrow> (6 \<le> length bytes \<longrightarrow> bytes ! 4 = ELFCLASS32 \<and> bytes ! 5 = ELFDATA2LSB)"

definition riscv_exec :: "elf_file \<Rightarrow> bool" where
  "riscv_exec ef \<longleftrightarrow> e_machine ef = EM_RISCV \<and> e_type ef = ET_EXEC"

lemma load_rv32_elf_accepted:
  "ident_ok bytes \<Longrightarrow> minimal_parse bytes = Inr ef \<Longrightarrow> riscv_exec ef \<Longrightarrow> phdrs ef = Some phs \<Longrightarrow>
   load_rv32_elf minimal_parse bytes =
     (case load_phdrs bytes phs [] of
        Inl segs \<Rightarrow> Loaded \<lparr>entry = ucast (e_entry ef), segments = segs\<rparr>
      | Inr (Some e) \<Rightarrow> LoadError e | Inr None \<Rightarrow> LoadPanic)"
  by (auto simp: load_rv32_elf_def ident_ok_def riscv_exec_def)

lemma load_rv32_elf_reaches_headers:
  assumes "load_rv32_elf minimal_parse bytes = Loaded prog \<or>
    load_rv32_elf minimal_parse bytes = LoadPanic"
  shows "ident_ok bytes \<and> (\<exists>ef phs. minimal_parse bytes = Inr ef \<and> riscv_exec ef \<and> phdrs ef = Some phs)"
  using assms by (auto simp: load_rv32_elf_def ident_ok_def riscv_exec_def split: if_splits sum.splits option.splits)

section \<open>Properties\<close>

text \<open>C5. The loader accepts exactly the little-endian 32-bit RISC-V executables whose loadable
  program headers have a file size within their memory size and lie inside the file, and then its
  segments are the loadable headers' file contents, in order, at the headers' addresses.\<close>

theorem loader_accepts_iff:
  fixes minimal_parse :: "u8 list \<Rightarrow> 'p + elf_file"
  shows "load_rv32_elf minimal_parse bytes = Loaded prog \<longleftrightarrow>
     ident_ok bytes \<and> (\<exists>ef phs. minimal_parse bytes = Inr ef \<and> riscv_exec ef \<and>
       phdrs ef = Some phs \<and> list_all (good_header bytes) phs \<and>
       prog = \<lparr>entry = ucast (e_entry ef), segments = map (segment_of bytes) (filter loadable phs)\<rparr>)"
proof
  assume l: "load_rv32_elf minimal_parse bytes = Loaded prog"
  then obtain ef phs where f: "ident_ok bytes" "minimal_parse bytes = Inr ef" "riscv_exec ef"
    "phdrs ef = Some phs"
    using load_rv32_elf_reaches_headers [of minimal_parse bytes prog] by blast
  show "ident_ok bytes \<and> (\<exists>ef phs. minimal_parse bytes = Inr ef \<and> riscv_exec ef \<and>
       phdrs ef = Some phs \<and> list_all (good_header bytes) phs \<and>
       prog = \<lparr>entry = ucast (e_entry ef), segments = map (segment_of bytes) (filter loadable phs)\<rparr>)"
  proof (cases rule: load_phdrs_cases [of bytes phs, where 'p = 'p])
    case good
    with l f show ?thesis
      by (auto simp: load_rv32_elf_accepted)
  next
    case (bad pre ph post)
    with l f show ?thesis
      by (simp add: load_rv32_elf_accepted split: if_splits)
  qed
next
  assume "ident_ok bytes \<and> (\<exists>ef phs. minimal_parse bytes = Inr ef \<and> riscv_exec ef \<and>
       phdrs ef = Some phs \<and> list_all (good_header bytes) phs \<and>
       prog = \<lparr>entry = ucast (e_entry ef), segments = map (segment_of bytes) (filter loadable phs)\<rparr>)"
  then show "load_rv32_elf minimal_parse bytes = Loaded prog"
    by (auto simp: load_rv32_elf_accepted load_phdrs_all_good)
qed

text \<open>C6. A truncated file is not reported as an \<^verbatim>\<open>ElfError\<close>: the loader panics exactly when the
  first header that is not good is loadable, has consistent sizes and points outside the file.\<close>

theorem loader_panics_iff:
  fixes minimal_parse :: "u8 list \<Rightarrow> 'p + elf_file"
  shows "load_rv32_elf minimal_parse bytes = LoadPanic \<longleftrightarrow>
     ident_ok bytes \<and> (\<exists>ef pre ph post. minimal_parse bytes = Inr ef \<and> riscv_exec ef \<and>
       phdrs ef = Some (pre @ ph # post) \<and> list_all (good_header bytes) pre \<and>
       loadable ph \<and> sizes_ok ph \<and> \<not> in_file bytes ph)"
proof
  assume l: "load_rv32_elf minimal_parse bytes = LoadPanic"
  then obtain ef phs where f: "ident_ok bytes" "minimal_parse bytes = Inr ef" "riscv_exec ef"
    "phdrs ef = Some phs"
    using load_rv32_elf_reaches_headers [of minimal_parse bytes] by blast
  show "ident_ok bytes \<and> (\<exists>ef pre ph post. minimal_parse bytes = Inr ef \<and> riscv_exec ef \<and>
       phdrs ef = Some (pre @ ph # post) \<and> list_all (good_header bytes) pre \<and>
       loadable ph \<and> sizes_ok ph \<and> \<not> in_file bytes ph)"
  proof (cases rule: load_phdrs_cases [of bytes phs, where 'p = 'p])
    case good
    with l f show ?thesis
      by (simp add: load_rv32_elf_accepted)
  next
    case (bad pre ph post)
    with l f show ?thesis
      by (auto simp: load_rv32_elf_accepted good_header_def split: if_splits)
  qed
next
  assume "ident_ok bytes \<and> (\<exists>ef pre ph post. minimal_parse bytes = Inr ef \<and> riscv_exec ef \<and>
       phdrs ef = Some (pre @ ph # post) \<and> list_all (good_header bytes) pre \<and>
       loadable ph \<and> sizes_ok ph \<and> \<not> in_file bytes ph)"
  then obtain ef pre ph post where f: "ident_ok bytes" "minimal_parse bytes = Inr ef"
    "riscv_exec ef" "phdrs ef = Some (pre @ ph # post)" "list_all (good_header bytes) pre"
    "sizes_ok ph" "\<not> good_header bytes ph"
    by (auto simp: good_header_def)
  then show "load_rv32_elf minimal_parse bytes = LoadPanic"
    by (simp add: load_rv32_elf_accepted load_phdrs_good load_phdrs_bad del: load_phdrs.simps)
qed

text \<open>C7. \<^verbatim>\<open>memory_high_water\<close> is the largest end address of a segment, computed without
  wrap-around and clipped to the largest 32-bit address, and zero for a program with no segments.\<close>

theorem memory_high_water_is_max:
  "unat (memory_high_water prog) =
     Max (insert 0 ((\<lambda>s. min (2 ^ 32 - 1) (unat (vaddr s) + unat (mem_size s))) ` set (segments prog)))"
proof -
  have sat: "unat (saturating_add a b) = min (2 ^ 32 - 1) (unat a + unat b)" for a b
    by (auto simp: saturating_add_def unat_word_ariths min_def unsigned_minus_1_eq_mask mask_eq_exp_minus_1)
  have fold: "unat (fold max ns n) = Max (insert (unat n) (unat ` set ns))" for n :: u32 and ns
  proof (induction ns arbitrary: n)
    case (Cons m ns)
    then show ?case
      by (cases "ns = []") (auto simp: max_def word_le_nat_alt Max_insert2 insert_commute intro!: Max_eqI)
  qed simp
  show ?thesis
    by (cases "segments prog") (auto simp: memory_high_water_def fold sat image_image)
qed

end
