(* ===== verification/Cpu.thy ===== *)
theory Cpu
  imports Decode Memory Elf
begin

text \<open>
  The processor of \<^verbatim>\<open>crates/rv32im/src/cpu.rs\<close>: its state, the executor of every opcode
  group, \<open>step\<close> and the \<open>run\<close> loop, all as functions that return the result together with
  the state the call leaves behind, on the error paths too. The handler of the custom opcodes is
  a parameter, as the trait \<^verbatim>\<open>CustomOpHandler\<close> is in the code.
\<close>

section \<open>State\<close>

definition DEFAULT_STACK_TOP :: u32 where
  "DEFAULT_STACK_TOP = 0xFFFFFFF0"

datatype step_outcome = Continue | Terminated u32

record cpu =
  cpu_pc :: u32
  cpu_x :: "u32 list"
  cpu_mem :: memory
  cpu_steps :: u64

text \<open>\<^verbatim>\<open>CustomOpHandler::handle\<close>: the handler's own state is \<open>'h\<close>.\<close>

type_synonym 'h handler = "u32 \<Rightarrow> cpu \<Rightarrow> 'h \<Rightarrow> step_outcome res \<times> cpu \<times> 'h"

primrec load_segments :: "memory \<Rightarrow> segment list \<Rightarrow> memory" where
  "load_segments m [] = m"
| "load_segments m (seg # segs) = load_segments (write_slice m (vaddr seg) (seg_data seg)) segs"

definition new_cpu :: "loaded_program \<Rightarrow> cpu" where
  "new_cpu prog =
     (let m = load_segments new_memory (segments prog);
          x = (replicate 32 0)[2 := DEFAULT_STACK_TOP]
      in \<lparr>cpu_pc = entry prog, cpu_x = x, cpu_mem = m, cpu_steps = 0\<rparr>)"

text \<open>Every caller passes a five-bit register field (\<open>reg_fields_less\<close>), so the array index
  is in range.\<close>

definition read_reg :: "cpu \<Rightarrow> u32 \<Rightarrow> u32" where
  "read_reg c r = (if r = 0 then 0 else cpu_x c ! unat r)"

definition write_reg :: "cpu \<Rightarrow> u32 \<Rightarrow> u32 \<Rightarrow> cpu" where
  "write_reg c r val = (if r \<noteq> 0 then c\<lparr>cpu_x := (cpu_x c)[unat r := val]\<rparr> else c)"

section \<open>Opcode groups\<close>

definition illegal :: "u32 \<Rightarrow> cpu \<Rightarrow> fault" where
  "illegal insn c = Failed (IllegalInstruction (cpu_pc c) insn)"

definition branch_taken :: "u32 \<Rightarrow> u32 \<Rightarrow> u32 \<Rightarrow> bool option" where
  "branch_taken f3 a b =
     (if f3 = 0 then Some (a = b)
      else if f3 = 1 then Some (a \<noteq> b)
      else if f3 = 4 then Some (sint a < sint b)
      else if f3 = 5 then Some (sint a \<ge> sint b)
      else if f3 = 6 then Some (a < b)
      else if f3 = 7 then Some (a \<ge> b)
      else None)"

definition exec_branch :: "u32 \<Rightarrow> cpu \<Rightarrow> unit res \<times> cpu" where
  "exec_branch insn c =
     (let a = read_reg c (rs1 insn);
          b = read_reg c (rs2 insn)
      in case branch_taken (funct3 insn) a b of
           None \<Rightarrow> (Inl (illegal insn c), c)
         | Some taken \<Rightarrow>
             (Inr (), c\<lparr>cpu_pc := (if taken then cpu_pc c + imm_b insn else cpu_pc c + 4)\<rparr>))"

definition load_value :: "memory \<Rightarrow> u32 \<Rightarrow> u32 \<Rightarrow> u32 option" where
  "load_value m f3 addr =
     (if f3 = 0 then Some (scast (read_u8 m addr))
      else if f3 = 1 then Some (scast (read_u16 m addr))
      else if f3 = 2 then Some (read_u32 m addr)
      else if f3 = 4 then Some (ucast (read_u8 m addr))
      else if f3 = 5 then Some (ucast (read_u16 m addr))
      else None)"

definition exec_load :: "u32 \<Rightarrow> cpu \<Rightarrow> unit res \<times> cpu" where
  "exec_load insn c =
     (let addr = read_reg c (rs1 insn) + imm_i insn
      in case load_value (cpu_mem c) (funct3 insn) addr of
           None \<Rightarrow> (Inl (illegal insn c), c)
         | Some val \<Rightarrow>
             (let c = write_reg c (rd insn) val in (Inr (), c\<lparr>cpu_pc := cpu_pc c + 4\<rparr>)))"

definition store_value :: "memory \<Rightarrow> u32 \<Rightarrow> u32 \<Rightarrow> u32 \<Rightarrow> memory option" where
  "store_value m f3 addr val =
     (if f3 = 0 then Some (write_u8 m addr (ucast val))
      else if f3 = 1 then Some (write_u16 m addr (ucast val))
      else if f3 = 2 then Some (write_u32 m addr val)
      else None)"

definition exec_store :: "u32 \<Rightarrow> cpu \<Rightarrow> unit res \<times> cpu" where
  "exec_store insn c =
     (let addr = read_reg c (rs1 insn) + imm_s insn;
          val = read_reg c (rs2 insn)
      in case store_value (cpu_mem c) (funct3 insn) addr val of
           None \<Rightarrow> (Inl (illegal insn c), c)
         | Some m \<Rightarrow> (Inr (), c\<lparr>cpu_mem := m, cpu_pc := cpu_pc c + 4\<rparr>))"

text \<open>The value of an immediate operation: the last arm of the match is \<open>unreachable!\<close>.\<close>

definition op_imm_value :: "u32 \<Rightarrow> cpu \<Rightarrow> u32 res" where
  "op_imm_value insn c =
     (let a = read_reg c (rs1 insn); imm = imm_i insn; f3 = funct3 insn in
      if f3 = 0 then Inr (a + imm)
      else if f3 = 2 then Inr (of_bool (sint a < sint imm))
      else if f3 = 3 then Inr (of_bool (a < imm))
      else if f3 = 4 then Inr (a XOR imm)
      else if f3 = 6 then Inr (a OR imm)
      else if f3 = 7 then Inr (a AND imm)
      else if f3 = 1 then Inr (push_bit (unat (shamt insn)) a)
      else if f3 = 5 then
        (let f7 = funct7 insn in
         if f7 = 0 then Inr (drop_bit (unat (shamt insn)) a)
         else if f7 = 0x20 then Inr (signed_drop_bit (unat (shamt insn)) a)
         else Inl (illegal insn c))
      else Inl (Panicked ''internal error: entered unreachable code: funct3 is 3 bits''))"

definition exec_op_imm :: "u32 \<Rightarrow> cpu \<Rightarrow> unit res \<times> cpu" where
  "exec_op_imm insn c =
     (case op_imm_value insn c of
        Inl e \<Rightarrow> (Inl e, c)
      | Inr val \<Rightarrow> (let c = write_reg c (rd insn) val in (Inr (), c\<lparr>cpu_pc := cpu_pc c + 4\<rparr>)))"

text \<open>The products of the high-half multiplications are computed in 64 bits.\<close>

definition op_value :: "u32 \<Rightarrow> u32 \<Rightarrow> u32 \<Rightarrow> u32 \<Rightarrow> u32 option" where
  "op_value f7 f3 a b =
     (if (f7, f3) = (0x00, 0) then Some (a + b)
      else if (f7, f3) = (0x20, 0) then Some (a - b)
      else if (f7, f3) = (0x00, 1) then Some (push_bit (unat (b AND 0x1f)) a)
      else if (f7, f3) = (0x00, 2) then Some (of_bool (sint a < sint b))
      else if (f7, f3) = (0x00, 3) then Some (of_bool (a < b))
      else if (f7, f3) = (0x00, 4) then Some (a XOR b)
      else if (f7, f3) = (0x00, 5) then Some (drop_bit (unat (b AND 0x1f)) a)
      else if (f7, f3) = (0x20, 5) then Some (signed_drop_bit (unat (b AND 0x1f)) a)
      else if (f7, f3) = (0x00, 6) then Some (a OR b)
      else if (f7, f3) = (0x00, 7) then Some (a AND b)
      else if (f7, f3) = (0x01, 0) then Some (a * b)
      else if (f7, f3) = (0x01, 1) then
        Some (let s = (scast a :: u64) * scast b in ucast (signed_drop_bit 32 s))
      else if (f7, f3) = (0x01, 2) then
        Some (let s = (scast a :: u64) * ucast b in ucast (signed_drop_bit 32 s))
      else if (f7, f3) = (0x01, 3) then
        Some (let s = (ucast a :: u64) * ucast b in ucast (drop_bit 32 s))
      else if (f7, f3) = (0x01, 4) then
        Some (if b = 0 then 0xFFFFFFFF
              else if a = 0x80000000 \<and> b = 0xFFFFFFFF then 0x80000000
              else word_of_int (sint a sdiv sint b))
      else if (f7, f3) = (0x01, 5) then Some (if b = 0 then 0xFFFFFFFF else a div b)
      else if (f7, f3) = (0x01, 6) then
        Some (if b = 0 then a
              else if a = 0x80000000 \<and> b = 0xFFFFFFFF then 0
              else word_of_int (sint a smod sint b))
      else if (f7, f3) = (0x01, 7) then Some (if b = 0 then a else a mod b)
      else None)"

definition exec_op :: "u32 \<Rightarrow> cpu \<Rightarrow> unit res \<times> cpu" where
  "exec_op insn c =
     (let a = read_reg c (rs1 insn);
          b = read_reg c (rs2 insn)
      in case op_value (funct7 insn) (funct3 insn) a b of
           None \<Rightarrow> (Inl (illegal insn c), c)
         | Some val \<Rightarrow>
             (let c = write_reg c (rd insn) val in (Inr (), c\<lparr>cpu_pc := cpu_pc c + 4\<rparr>)))"

section \<open>Steps and runs\<close>

text \<open>The \<^verbatim>\<open>?\<close> after a group's executor, then \<^verbatim>\<open>Ok(StepOutcome::Continue)\<close>.\<close>

definition then_continue :: "unit res \<times> cpu \<Rightarrow> 'h \<Rightarrow> step_outcome res \<times> cpu \<times> 'h" where
  "then_continue r h = (case r of (Inl e, c) \<Rightarrow> (Inl e, c, h) | (Inr _, c) \<Rightarrow> (Inr Continue, c, h))"

definition step :: "'h handler \<Rightarrow> cpu \<Rightarrow> 'h \<Rightarrow> step_outcome res \<times> cpu \<times> 'h" where
  "step handler c h =
     (let pc = cpu_pc c;
          insn = read_u32 (cpu_mem c) pc;
          opc = opcode insn in
      if opc = OPCODE_LUI then
        (Inr Continue, (write_reg c (rd insn) (imm_u insn))\<lparr>cpu_pc := pc + 4\<rparr>, h)
      else if opc = OPCODE_AUIPC then
        (Inr Continue, (write_reg c (rd insn) (pc + imm_u insn))\<lparr>cpu_pc := pc + 4\<rparr>, h)
      else if opc = OPCODE_JAL then
        (let target = pc + imm_j insn
         in (Inr Continue, (write_reg c (rd insn) (pc + 4))\<lparr>cpu_pc := target\<rparr>, h))
      else if opc = OPCODE_JALR then
        (let base = read_reg c (rs1 insn);
             target = (base + imm_i insn) AND NOT 1;
             link = pc + 4
         in (Inr Continue, (write_reg c (rd insn) link)\<lparr>cpu_pc := target\<rparr>, h))
      else if opc = OPCODE_BRANCH then then_continue (exec_branch insn c) h
      else if opc = OPCODE_LOAD then then_continue (exec_load insn c) h
      else if opc = OPCODE_STORE then then_continue (exec_store insn c) h
      else if opc = OPCODE_OP_IMM then then_continue (exec_op_imm insn c) h
      else if opc = OPCODE_OP then then_continue (exec_op insn c) h
      else if opc = OPCODE_MISC_MEM then (Inr Continue, c\<lparr>cpu_pc := pc + 4\<rparr>, h)
      else if opc = OPCODE_SYSTEM then
        (let f3 = funct3 insn; imm = imm_i insn AND 0xfff in
         if (f3, imm) = (0, 0) then (Inl (Failed (ECall pc)), c, h)
         else if (f3, imm) = (0, 1) then (Inl (Failed (EBreak pc)), c, h)
         else (Inl (Failed (IllegalInstruction pc insn)), c, h))
      else if opc = OPCODE_CUSTOM_0 \<or> opc = OPCODE_CUSTOM_1 then
        (case handler insn c h of
           (Inl e, c, h) \<Rightarrow> (Inl e, c, h)
         | (Inr Continue, c, h) \<Rightarrow> (Inr Continue, c, h)
         | (Inr (Terminated code), c, h) \<Rightarrow> (Inr (Terminated code), c, h))
      else (Inl (Failed (IllegalInstruction pc insn)), c, h))"

text \<open>\<open>None\<close> is a run that never returns: the step counter does not grow to the limit, or the host code
  of an instruction does not end.\<close>

partial_function (option) run ::
  "'h handler \<Rightarrow> u64 \<Rightarrow> cpu \<Rightarrow> 'h \<Rightarrow> (u32 res \<times> cpu \<times> 'h) option" where
  "run handler max_steps c h =
     (if cpu_steps c \<ge> max_steps then Some (Inl (Failed (StepLimitExceeded (cpu_pc c))), c, h)
      else (case step handler c h of
              (Inl e, c, h) \<Rightarrow> if e = Diverged then None else Some (Inl e, c, h)
            | (Inr Continue, c, h) \<Rightarrow> run handler max_steps (c\<lparr>cpu_steps := cpu_steps c + 1\<rparr>) h
            | (Inr (Terminated code), c, h) \<Rightarrow> Some (Inr code, c, h)))"

section \<open>Well-formed processors\<close>

definition wf_cpu :: "cpu \<Rightarrow> bool" where
  "wf_cpu c \<longleftrightarrow> length (cpu_x c) = 32 \<and> cpu_x c ! 0 = 0 \<and> wf_memory (cpu_mem c)"

lemma wf_cpu_pc [simp]: "wf_cpu (c\<lparr>cpu_pc := p\<rparr>) \<longleftrightarrow> wf_cpu c"
  by (simp add: wf_cpu_def)

lemma wf_cpu_steps [simp]: "wf_cpu (c\<lparr>cpu_steps := n\<rparr>) \<longleftrightarrow> wf_cpu c"
  by (simp add: wf_cpu_def)

lemma wf_cpu_mem [keeps_wf]: "wf_cpu c \<Longrightarrow> wf_memory m \<Longrightarrow> wf_cpu (c\<lparr>cpu_mem := m\<rparr>)"
  by (simp add: wf_cpu_def)

lemma read_reg_upd [simp]:
  "read_reg (c\<lparr>cpu_pc := p\<rparr>) r = read_reg c r" "read_reg (c\<lparr>cpu_steps := n\<rparr>) r = read_reg c r"
  "read_reg (c\<lparr>cpu_mem := m\<rparr>) r = read_reg c r"
  by (simp_all add: read_reg_def)

lemma read_reg_0 [simp]: "read_reg c 0 = 0"
  by (simp add: read_reg_def)

lemma write_reg_fields [simp]:
  "cpu_pc (write_reg c r v) = cpu_pc c" "cpu_mem (write_reg c r v) = cpu_mem c"
  "cpu_steps (write_reg c r v) = cpu_steps c"
  by (simp_all add: write_reg_def)

lemma wf_write_reg [keeps_wf]: "wf_cpu c \<Longrightarrow> wf_cpu (write_reg c r v)"
  by (simp add: wf_cpu_def write_reg_def word_unat_eq_iff)

lemma read_reg_write_reg:
  "wf_cpu c \<Longrightarrow> unat r < 32 \<Longrightarrow>
   read_reg (write_reg c r v) s = (if s = r \<and> r \<noteq> 0 then v else read_reg c s)"
  by (auto simp: read_reg_def write_reg_def wf_cpu_def nth_list_update simp flip: word_unat_eq_iff)

lemma wf_load_segments [keeps_wf]: "wf_memory m \<Longrightarrow> wf_memory (load_segments m segs)"
  by (induction segs arbitrary: m) (auto simp: keeps_wf)

lemma wf_new_cpu [keeps_wf]: "wf_cpu (new_cpu prog)"
  by (simp add: new_cpu_def wf_cpu_def Let_def keeps_wf)

lemma wf_cpu_memory [keeps_wf]: "wf_cpu c \<Longrightarrow> wf_memory (cpu_mem c)"
  by (simp add: wf_cpu_def)

section \<open>The opcode groups\<close>

text \<open>What every executor owes \<open>step\<close>: well-formedness is kept, the step counter is not
  touched, and an error leaves the processor as it was.\<close>

definition group_ok :: "cpu \<Rightarrow> unit res \<times> cpu \<Rightarrow> bool" where
  "group_ok c r \<longleftrightarrow> wf_cpu (snd r) \<and> cpu_steps (snd r) = cpu_steps c \<and>
     (\<forall>e. fst r = Inl e \<longrightarrow> snd r = c \<and> (\<exists>insn. e = illegal insn c))"

lemma exec_branch_ok: "wf_cpu c \<Longrightarrow> group_ok c (exec_branch insn c)"
  by (auto simp: group_ok_def exec_branch_def Let_def split: option.split)

lemma exec_load_ok: "wf_cpu c \<Longrightarrow> group_ok c (exec_load insn c)"
  by (auto simp: group_ok_def exec_load_def Let_def keeps_wf split: option.split)

lemma wf_store_value: "wf_memory m \<Longrightarrow> store_value m f3 a v = Some m' \<Longrightarrow> wf_memory m'"
  by (auto simp: store_value_def keeps_wf split: if_splits)

lemma exec_store_ok:
  assumes "wf_cpu c"
  shows "group_ok c (exec_store insn c)"
proof (cases "store_value (cpu_mem c) (funct3 insn) (read_reg c (rs1 insn) + imm_s insn)
    (read_reg c (rs2 insn))")
  case None
  with assms show ?thesis
    by (auto simp: group_ok_def exec_store_def)
next
  case (Some m)
  with assms have "wf_memory m"
    using wf_store_value wf_cpu_memory by blast
  with Some assms show ?thesis
    by (auto simp: group_ok_def exec_store_def wf_cpu_def)
qed

text \<open>The \<open>unreachable!\<close> arm is unreachable: a three-bit field takes eight values.\<close>

lemma funct3_values: "funct3 insn \<in> {0, 1, 2, 3, 4, 5, 6, 7}"
proof -
  have "unat (funct3 insn) \<in> set [0..<8]"
    by simp
  also have "set [0..<8] = {0, 1, 2, 3, 4, 5, 6, 7 :: nat}"
    by code_simp
  finally show ?thesis
    by (simp add: word_unat_eq_iff)
qed

lemma op_imm_value_total: "op_imm_value insn c = Inl e \<Longrightarrow> e = illegal insn c"
  using funct3_values [of insn] by (auto simp: op_imm_value_def Let_def split: if_splits)

lemma exec_op_imm_ok: "wf_cpu c \<Longrightarrow> group_ok c (exec_op_imm insn c)"
  by (auto simp: group_ok_def exec_op_imm_def Let_def keeps_wf split: sum.split
      dest: op_imm_value_total)

lemma exec_op_ok: "wf_cpu c \<Longrightarrow> group_ok c (exec_op insn c)"
  by (auto simp: group_ok_def exec_op_def Let_def keeps_wf split: option.split)

lemmas groups_ok = exec_branch_ok exec_load_ok exec_store_ok exec_op_imm_ok exec_op_ok

section \<open>The handler interface\<close>

text \<open>A step that is not a custom opcode cannot fail half-way and never touches the handler.\<close>

definition custom_opcode :: "u32 \<Rightarrow> bool" where
  "custom_opcode insn \<longleftrightarrow> opcode insn = OPCODE_CUSTOM_0 \<or> opcode insn = OPCODE_CUSTOM_1"

definition plain_step_ok :: "cpu \<Rightarrow> 'h \<Rightarrow> step_outcome res \<times> cpu \<times> 'h \<Rightarrow> bool" where
  "plain_step_ok c h r \<longleftrightarrow>
     (\<exists>c'. r = (Inr Continue, c', h) \<and> wf_cpu c' \<and> cpu_steps c' = cpu_steps c) \<or>
     (\<exists>e. r = (Inl (Failed e), c, h) \<and>
        (e = ECall (cpu_pc c) \<or> e = EBreak (cpu_pc c) \<or>
         (\<exists>insn. e = IllegalInstruction (cpu_pc c) insn)))"

lemma then_continue_ok: "group_ok c r \<Longrightarrow> plain_step_ok c h (then_continue r h)"
  by (cases r) (auto simp: group_ok_def then_continue_def plain_step_ok_def illegal_def split: sum.splits)

lemma step_plain:
  assumes "wf_cpu c" "\<not> custom_opcode (read_u32 (cpu_mem c) (cpu_pc c))"
  shows "plain_step_ok c h (step handler c h)"
proof -
  note ok = groups_ok [OF assms(1), THEN then_continue_ok]
  have upd: "plain_step_ok c h (Inr Continue, (write_reg c r v)\<lparr>cpu_pc := p\<rparr>, h)" for r v p
    by (simp add: plain_step_ok_def keeps_wf assms(1))
  have pc: "plain_step_ok c h (Inr Continue, c\<lparr>cpu_pc := p\<rparr>, h)" for p
    by (simp add: plain_step_ok_def assms(1))
  have err: "plain_step_ok c h (Inl (Failed (ECall (cpu_pc c))), c, h)"
    "plain_step_ok c h (Inl (Failed (EBreak (cpu_pc c))), c, h)"
    "plain_step_ok c h (Inl (Failed (IllegalInstruction (cpu_pc c) insn)), c, h)" for insn
    by (simp_all add: plain_step_ok_def)
  show ?thesis
    using assms(2) unfolding step_def Let_def custom_opcode_def
    by (simp only: if_split de_Morgan_disj simp_thms ok upd pc err)
qed

lemma step_custom:
  assumes "custom_opcode (read_u32 (cpu_mem c) (cpu_pc c))"
  shows "step handler c h = handler (read_u32 (cpu_mem c) (cpu_pc c)) c h"
proof -
  have "(case r of (Inl e, c, h) \<Rightarrow> (Inl e, c, h) | (Inr Continue, c, h) \<Rightarrow> (Inr Continue, c, h)
      | (Inr (Terminated code), c, h) \<Rightarrow> (Inr (Terminated code), c, h)) = r" for r :: "step_outcome res \<times> cpu \<times> 'a"
    by (auto split: prod.split sum.split step_outcome.split)
  with assms show ?thesis
    unfolding step_def Let_def custom_opcode_def by (elim disjE) (simp_all add: dispatch_defs)
qed

text \<open>The executed steps: a step that continues, followed by the counting in \<open>run\<close>.\<close>

inductive reaches :: "'h handler \<Rightarrow> u64 \<Rightarrow> cpu \<Rightarrow> 'h \<Rightarrow> cpu \<Rightarrow> 'h \<Rightarrow> bool" for handler limit where
  here: "reaches handler limit c h c h"
| more: "reaches handler limit c h c1 h1 \<Longrightarrow> cpu_steps c1 < limit \<Longrightarrow>
    step handler c1 h1 = (Inr Continue, c2, h2) \<Longrightarrow>
    reaches handler limit c h (c2\<lparr>cpu_steps := cpu_steps c2 + 1\<rparr>) h2"

lemma reaches_front:
  "reaches handler limit c1 h1 c' h' \<Longrightarrow> step handler c h = (Inr Continue, c2, h1) \<Longrightarrow>
   cpu_steps c < limit \<Longrightarrow> c1 = c2\<lparr>cpu_steps := cpu_steps c2 + 1\<rparr> \<Longrightarrow>
   reaches handler limit c h c' h'"
  by (induction rule: reaches.induct) (auto intro: reaches.intros)

text \<open>How a run ends, in terms of the steps: the counter has reached the limit, or the last step
  failed or did not end, or it terminated with the exit code that is returned.\<close>

definition run_ends :: "'h handler \<Rightarrow> u64 \<Rightarrow> cpu \<Rightarrow> 'h \<Rightarrow> u32 res \<times> cpu \<times> 'h \<Rightarrow> bool" where
  "run_ends handler max_steps c h r \<longleftrightarrow>
     (\<exists>c1 h1. reaches handler max_steps c h c1 h1 \<and>
        (if max_steps \<le> cpu_steps c1
         then r = (Inl (Failed (StepLimitExceeded (cpu_pc c1))), c1, h1)
         else (\<exists>e c2 h2. step handler c1 h1 = (Inl e, c2, h2) \<and> r = (Inl e, c2, h2)) \<or>
              (\<exists>code c2 h2. step handler c1 h1 = (Inr (Terminated code), c2, h2) \<and>
                 r = (Inr code, c2, h2))))"

lemma run_ends_step:
  "step handler c h = (Inr Continue, c', h') \<Longrightarrow> cpu_steps c < max_steps \<Longrightarrow>
   run_ends handler max_steps (c'\<lparr>cpu_steps := cpu_steps c' + 1\<rparr>) h' r \<Longrightarrow>
   run_ends handler max_steps c h r"
  unfolding run_ends_def by (blast intro: reaches_front)

text \<open>What a provider of custom opcodes promises: it keeps the processor well formed and its own
  invariant, and it does not touch the step counter.\<close>

locale custom_handler =
  fixes handler :: "'h handler" and hinv :: "'h \<Rightarrow> bool"
  assumes handler_keeps: "wf_cpu c \<Longrightarrow> hinv h \<Longrightarrow> handler insn c h = (r, c', h') \<Longrightarrow>
    wf_cpu c' \<and> hinv h' \<and> cpu_steps c' = cpu_steps c"
begin

lemma step_keeps:
  assumes "wf_cpu c" "hinv h" "step handler c h = (r, c', h')"
  shows "wf_cpu c' \<and> hinv h' \<and> cpu_steps c' = cpu_steps c"
proof (cases "custom_opcode (read_u32 (cpu_mem c) (cpu_pc c))")
  case True
  with assms show ?thesis
    using handler_keeps by (metis step_custom)
next
  case False
  with assms step_plain [OF assms(1) False, of h handler] show ?thesis
    by (auto simp: plain_step_ok_def)
qed

lemma reaches_keeps:
  "reaches handler limit c h c' h' \<Longrightarrow> wf_cpu c \<Longrightarrow> hinv h \<Longrightarrow> cpu_steps c \<le> limit \<Longrightarrow>
   wf_cpu c' \<and> hinv h' \<and> cpu_steps c' \<le> limit"
proof (induction rule: reaches.induct)
  case (more c h c1 h1 c2 h2)
  from more.hyps(2) have "cpu_steps c1 + 1 \<le> limit"
    by (rule inc_le)
  moreover have "wf_cpu c2 \<and> hinv h2 \<and> cpu_steps c2 = cpu_steps c1"
    using more.IH [OF more.prems] step_keeps more.hyps(3) by blast
  ultimately show ?case
    by simp
qed simp

lemma run_outcome:
  assumes "wf_cpu c" "hinv h"
  shows "\<exists>r. run_ends handler max_steps c h r \<and>
    run handler max_steps c h = (if fst r = Inl Diverged then None else Some r)"
  using assms
proof (induction "unat (max_steps - cpu_steps c)" arbitrary: c h rule: less_induct)
  case less
  show ?case
  proof (cases "max_steps \<le> cpu_steps c")
    case True
    then have "run_ends handler max_steps c h (Inl (Failed (StepLimitExceeded (cpu_pc c))), c, h)"
      by (auto simp: run_ends_def intro: reaches.here)
    with True show ?thesis
      by (intro exI [of _ "(Inl (Failed (StepLimitExceeded (cpu_pc c))), c, h)"]) (simp add: run.simps)
  next
    case False
    obtain o' c' h' where st: "step handler c h = (o', c', h')"
      by (cases "step handler c h")
    show ?thesis
    proof (cases "o' = Inr Continue")
      case True
      note keeps = step_keeps [OF less.prems st]
      let ?c = "c'\<lparr>cpu_steps := cpu_steps c' + 1\<rparr>"
      have "unat (max_steps - cpu_steps ?c) < unat (max_steps - cpu_steps c)"
        using False keeps by simp (unat_arith)
      from less.hyps [OF this, of h'] keeps obtain r where
        r: "run handler max_steps ?c h' = (if fst r = Inl Diverged then None else Some r)"
        "run_ends handler max_steps ?c h' r"
        by auto
      from r(1) st True False have "run handler max_steps c h = (if fst r = Inl Diverged then None else Some r)"
        by (subst run.simps) simp
      moreover from r(2) st True False have "run_ends handler max_steps c h r"
        by (auto intro: run_ends_step simp: not_le)
      ultimately show ?thesis
        by blast
    next
      case end': False
      let ?r = "(case o' of Inl e \<Rightarrow> Inl e | Inr (Terminated code) \<Rightarrow> Inr code, c', h')"
      from st False end' have "run_ends handler max_steps c h ?r"
        by (cases o'; cases "projr o'") (force simp: run_ends_def intro!: exI reaches.here)+
      moreover have "run handler max_steps c h = (if fst ?r = Inl Diverged then None else Some ?r)"
        using end' st False by (subst run.simps) (auto split: sum.split step_outcome.split)
      ultimately show ?thesis
        by blast
    qed
  qed
qed

text \<open>The state a run leaves behind is well formed, and the counter never passes the limit.\<close>

lemma run_ends_keeps:
  assumes "run_ends handler max_steps c h (r, c', h')" "wf_cpu c" "hinv h" "cpu_steps c \<le> max_steps"
  shows "wf_cpu c' \<and> hinv h' \<and> cpu_steps c' \<le> max_steps"
proof -
  obtain c1 h1 where "reaches handler max_steps c h c1 h1"
    and last: "(c', h') = (c1, h1) \<or> (\<exists>r'. step handler c1 h1 = (r', c', h'))"
    using assms(1) unfolding run_ends_def by (auto split: if_splits)
  note keeps = reaches_keeps [OF this(1) assms(2-4)]
  from last show ?thesis
  proof (elim disjE exE)
    fix r'
    assume "step handler c1 h1 = (r', c', h')"
    with keeps step_keeps [of c1 h1 r' c' h'] show ?thesis
      by simp
  qed (use keeps in simp)
qed

text \<open>A run under a larger limit goes on from where the smaller limit stopped it.\<close>

lemma run_resumes:
  assumes "wf_cpu c" "hinv h" "n \<le> m" "run handler n c h = Some (r, c', h')"
  shows "run handler m c h = (if n \<le> cpu_steps c' then run handler m c' h' else Some (r, c', h'))"
  using assms
proof (induction "unat (n - cpu_steps c)" arbitrary: c h rule: less_induct)
  case less
  show ?case
  proof (cases "n \<le> cpu_steps c")
    case True
    with less.prems(4) show ?thesis
      by (subst (asm) run.simps) simp
  next
    case False
    with less.prems(3) have lim: "\<not> m \<le> cpu_steps c" "\<not> n \<le> cpu_steps c"
      by simp_all
    obtain o' c1 h1 where st: "step handler c h = (o', c1, h1)"
      by (cases "step handler c h")
    note keeps = step_keeps [OF less.prems(1,2) st]
    show ?thesis
    proof (cases "o' = Inr Continue")
      case True
      let ?c = "c1\<lparr>cpu_steps := cpu_steps c1 + 1\<rparr>"
      have "run handler n ?c h1 = Some (r, c', h')"
        using less.prems(4) st True lim by (subst (asm) run.simps) simp
      moreover have "unat (n - cpu_steps ?c) < unat (n - cpu_steps c)"
        using False keeps by simp (unat_arith)
      ultimately have "run handler m ?c h1 = (if n \<le> cpu_steps c' then run handler m c' h' else Some (r, c', h'))"
        using less.hyps [of ?c h1] keeps less.prems(3) by simp
      with st True lim show ?thesis
        by (subst run.simps) simp
    next
      case end': False
      with less.prems(4) st lim have "c' = c1 \<and> run handler m c h = Some (r, c', h')"
        by (subst (asm) run.simps, subst run.simps) (auto split: sum.splits step_outcome.splits)
      with keeps lim show ?thesis
        by simp
    qed
  qed
qed

end

section \<open>Processors for concrete instances\<close>

text \<open>A processor with some bytes in memory and some registers set.\<close>

definition example_cpu :: "(u32 \<times> u8 list) list \<Rightarrow> (u32 \<times> u32) list \<Rightarrow> cpu" where
  "example_cpu blocks regs = fold (\<lambda>(r, v) c. write_reg c r v) regs
     (new_cpu \<lparr>entry = 0, segments = map (\<lambda>(a, bs). \<lparr>vaddr = a, mem_size = of_nat (length bs),
        writable = True, executable = True, seg_data = bs\<rparr>) blocks\<rparr>)"

lemma wf_example_cpu [keeps_wf]: "wf_cpu (example_cpu blocks regs)"
proof -
  have "wf_cpu c \<Longrightarrow> wf_cpu (fold (\<lambda>(r, v) c. write_reg c r v) regs c)" for c
    by (induction regs arbitrary: c) (auto simp: keeps_wf)
  then show ?thesis
    by (simp add: example_cpu_def keeps_wf)
qed

text \<open>What such a processor holds: the byte of the last block at an address, the register as without any
  blocks.\<close>

lemma example_cpu_byte:
  assumes "list_all (\<lambda>(a, bs). length bs \<le> 2 ^ 32) blocks"
  shows "read_u8 (cpu_mem (example_cpu blocks regs)) addr =
    fold (\<lambda>(a, bs) old. if unat (addr - a) < length bs then bs ! unat (addr - a) else old) blocks 0"
proof -
  have regs: "cpu_mem (fold (\<lambda>(r, v) c. write_reg c r v) regs c) = cpu_mem c" for c
    by (induction regs arbitrary: c) auto
  have "read_u8 (load_segments m (map (\<lambda>(a, bs). \<lparr>vaddr = a, mem_size = of_nat (length bs),
      writable = True, executable = True, seg_data = bs\<rparr>) blocks)) addr =
    fold (\<lambda>(a, bs) old. if unat (addr - a) < length bs then bs ! unat (addr - a) else old) blocks (read_u8 m addr)"
    if "wf_memory m" for m
    using assms that by (induction blocks arbitrary: m) (auto simp: mem_laws overlay_def keeps_wf)
  from this [OF wf_new_memory] show ?thesis
    unfolding example_cpu_def regs by (simp add: new_cpu_def read_u8_new_memory)
qed

lemma example_cpu_reg: "read_reg (example_cpu (b # blocks) regs) r = read_reg (example_cpu [] regs) r"
proof -
  have "cpu_x (fold (\<lambda>(r, v) c. write_reg c r v) regs c) = cpu_x (fold (\<lambda>(r, v) c. write_reg c r v) regs c')"
    if "cpu_x c = cpu_x c'" for c c'
    using that
  proof (induction regs arbitrary: c c')
    case (Cons rv regs)
    have "cpu_x (write_reg c (fst rv) (snd rv)) = cpu_x (write_reg c' (fst rv) (snd rv))"
      using Cons.prems by (simp add: write_reg_def)
    from Cons.IH [OF this] show ?case
      by (simp add: case_prod_beta)
  qed simp
  from this [of "new_cpu \<lparr>entry = 0, segments = map (\<lambda>(a, bs). \<lparr>vaddr = a, mem_size = of_nat (length bs),
        writable = True, executable = True, seg_data = bs\<rparr>) (b # blocks)\<rparr>" "new_cpu \<lparr>entry = 0, segments = []\<rparr>"]
  have "cpu_x (example_cpu (b # blocks) regs) = cpu_x (example_cpu [] regs)"
    unfolding example_cpu_def by (simp add: new_cpu_def)
  then show ?thesis
    by (simp add: read_reg_def)
qed

end
