(* ===== verification/Isa.thy ===== *)
theory Isa
  imports Cpu
begin

text \<open>
  An abstract machine for RV32IM as the RISC-V manual describes it: instructions as a datatype
  with their binary formats, a register file without a register 0, a flat memory, and one
  execution function whose operations are given by integer arithmetic. The processor of
  \<open>Cpu\<close> refines it: wherever the program counter points at the encoding of an instruction,
  \<open>step\<close> does to the concrete state what the manual says about the abstract one.
\<close>

section \<open>Instructions and their encoding\<close>

type_synonym reg = "5 word"

datatype branch_op = Beq | Bne | Blt | Bge | Bltu | Bgeu

datatype load_op = Lb | Lh | Lw | Lbu | Lhu

datatype store_op = Sb | Sh | Sw

datatype imm_op = Addi | Slti | Sltiu | Xori | Ori | Andi

datatype shift_op = Slli | Srli | Srai

datatype reg_op =
    Add | Sub | Sll | Slt | Sltu | Xor | Srl | Sra | Or | And
  | Mul | Mulh | Mulhsu | Mulhu | Div | Divu | Rem | Remu

datatype instr =
    Lui reg int
  | Auipc reg int
  | Jal reg int
  | Jalr reg reg int
  | Branch branch_op reg reg int
  | Load load_op reg reg int
  | Store store_op reg reg int
  | OpImm imm_op reg reg int
  | ShiftImm shift_op reg reg "5 word"
  | Op reg_op reg reg reg
  | Fence int

primrec branch_f3 :: "branch_op \<Rightarrow> u32" where
  "branch_f3 Beq = 0" | "branch_f3 Bne = 1" | "branch_f3 Blt = 4" | "branch_f3 Bge = 5"
| "branch_f3 Bltu = 6" | "branch_f3 Bgeu = 7"

primrec load_f3 :: "load_op \<Rightarrow> u32" where
  "load_f3 Lb = 0" | "load_f3 Lh = 1" | "load_f3 Lw = 2" | "load_f3 Lbu = 4" | "load_f3 Lhu = 5"

primrec store_f3 :: "store_op \<Rightarrow> u32" where
  "store_f3 Sb = 0" | "store_f3 Sh = 1" | "store_f3 Sw = 2"

primrec imm_f3 :: "imm_op \<Rightarrow> u32" where
  "imm_f3 Addi = 0" | "imm_f3 Slti = 2" | "imm_f3 Sltiu = 3" | "imm_f3 Xori = 4"
| "imm_f3 Ori = 6" | "imm_f3 Andi = 7"

primrec shift_f :: "shift_op \<Rightarrow> u32 \<times> u32" where
  "shift_f Slli = (0x00, 1)" | "shift_f Srli = (0x00, 5)" | "shift_f Srai = (0x20, 5)"

primrec op_f :: "reg_op \<Rightarrow> u32 \<times> u32" where
  "op_f Add = (0x00, 0)" | "op_f Sub = (0x20, 0)" | "op_f Sll = (0x00, 1)"
| "op_f Slt = (0x00, 2)" | "op_f Sltu = (0x00, 3)" | "op_f Xor = (0x00, 4)"
| "op_f Srl = (0x00, 5)" | "op_f Sra = (0x20, 5)" | "op_f Or = (0x00, 6)"
| "op_f And = (0x00, 7)" | "op_f Mul = (0x01, 0)" | "op_f Mulh = (0x01, 1)"
| "op_f Mulhsu = (0x01, 2)" | "op_f Mulhu = (0x01, 3)" | "op_f Div = (0x01, 4)"
| "op_f Divu = (0x01, 5)" | "op_f Rem = (0x01, 6)" | "op_f Remu = (0x01, 7)"

primrec encode :: "instr \<Rightarrow> u32" where
  "encode (Lui d k) = U_type k (ucast d) 0b0110111"
| "encode (Auipc d k) = U_type k (ucast d) 0b0010111"
| "encode (Jal d k) = J_type k (ucast d) 0b1101111"
| "encode (Jalr d s k) = I_type k (ucast s) 0 (ucast d) 0b1100111"
| "encode (Branch bop s t k) = B_type k (ucast t) (ucast s) (branch_f3 bop) 0b1100011"
| "encode (Load lop d s k) = I_type k (ucast s) (load_f3 lop) (ucast d) 0b0000011"
| "encode (Store sop t s k) = S_type k (ucast t) (ucast s) (store_f3 sop) 0b0100011"
| "encode (OpImm iop d s k) = I_type k (ucast s) (imm_f3 iop) (ucast d) 0b0010011"
| "encode (ShiftImm sop d s n) =
     R_type (fst (shift_f sop)) (ucast n) (ucast s) (snd (shift_f sop)) (ucast d) 0b0010011"
| "encode (Op rop d s t) =
     R_type (fst (op_f rop)) (ucast t) (ucast s) (snd (op_f rop)) (ucast d) 0b0110011"
| "encode (Fence k) = I_type k 0 0 0 0b0001111"

text \<open>The immediates an instruction can hold.\<close>

primrec encodable :: "instr \<Rightarrow> bool" where
  "encodable (Lui d k) \<longleftrightarrow> take_bit 12 k = 0"
| "encodable (Auipc d k) \<longleftrightarrow> take_bit 12 k = 0"
| "encodable (Jal d k) \<longleftrightarrow> - (2 ^ 20) \<le> k \<and> k < 2 ^ 20 \<and> even k"
| "encodable (Jalr d s k) \<longleftrightarrow> - (2 ^ 11) \<le> k \<and> k < 2 ^ 11"
| "encodable (Branch bop s t k) \<longleftrightarrow> - (2 ^ 12) \<le> k \<and> k < 2 ^ 12 \<and> even k"
| "encodable (Load lop d s k) \<longleftrightarrow> - (2 ^ 11) \<le> k \<and> k < 2 ^ 11"
| "encodable (Store sop t s k) \<longleftrightarrow> - (2 ^ 11) \<le> k \<and> k < 2 ^ 11"
| "encodable (OpImm iop d s k) \<longleftrightarrow> - (2 ^ 11) \<le> k \<and> k < 2 ^ 11"
| "encodable (ShiftImm sop d s n) \<longleftrightarrow> True"
| "encodable (Op rop d s t) \<longleftrightarrow> True"
| "encodable (Fence k) \<longleftrightarrow> - (2 ^ 11) \<le> k \<and> k < 2 ^ 11"

section \<open>The abstract machine\<close>

record arch =
  a_pc :: u32
  a_reg :: "reg \<Rightarrow> u32"
  a_mem :: "u32 \<Rightarrow> u8"

definition abs_cpu :: "cpu \<Rightarrow> arch" where
  "abs_cpu c = \<lparr>a_pc = cpu_pc c, a_reg = (\<lambda>r. read_reg c (ucast r)), a_mem = read_u8 (cpu_mem c)\<rparr>"

definition set_reg :: "reg \<Rightarrow> u32 \<Rightarrow> arch \<Rightarrow> arch" where
  "set_reg d v s = (if d = 0 then s else s\<lparr>a_reg := (a_reg s)(d := v)\<rparr>)"

definition next_pc :: "arch \<Rightarrow> arch" where
  "next_pc s = s\<lparr>a_pc := a_pc s + 4\<rparr>"

definition mem_bytes :: "(u32 \<Rightarrow> u8) \<Rightarrow> u32 \<Rightarrow> nat \<Rightarrow> u8 list" where
  "mem_bytes f a n = map (\<lambda>i. f (a + of_nat i)) [0..<n]"

primrec isa_branch :: "branch_op \<Rightarrow> u32 \<Rightarrow> u32 \<Rightarrow> bool" where
  "isa_branch Beq a b \<longleftrightarrow> a = b"
| "isa_branch Bne a b \<longleftrightarrow> a \<noteq> b"
| "isa_branch Blt a b \<longleftrightarrow> sint a < sint b"
| "isa_branch Bge a b \<longleftrightarrow> sint b \<le> sint a"
| "isa_branch Bltu a b \<longleftrightarrow> uint a < uint b"
| "isa_branch Bgeu a b \<longleftrightarrow> uint b \<le> uint a"

primrec isa_load :: "load_op \<Rightarrow> (u32 \<Rightarrow> u8) \<Rightarrow> u32 \<Rightarrow> u32" where
  "isa_load Lb f a = word_of_int (sint (f a))"
| "isa_load Lh f a = word_of_int (sint (from_le_bytes (mem_bytes f a 2) :: u16))"
| "isa_load Lw f a = of_nat (le_val (mem_bytes f a 4))"
| "isa_load Lbu f a = of_nat (unat (f a))"
| "isa_load Lhu f a = of_nat (le_val (mem_bytes f a 2))"

primrec isa_store :: "store_op \<Rightarrow> u32 \<Rightarrow> u8 list" where
  "isa_store Sb v = le_bytes 1 (unat v)"
| "isa_store Sh v = le_bytes 2 (unat v)"
| "isa_store Sw v = le_bytes 4 (unat v)"

primrec isa_imm :: "imm_op \<Rightarrow> u32 \<Rightarrow> int \<Rightarrow> u32" where
  "isa_imm Addi a k = word_of_int (sint a + k)"
| "isa_imm Slti a k = of_bool (sint a < k)"
| "isa_imm Sltiu a k = of_bool (uint a < uint (word_of_int k :: u32))"
| "isa_imm Xori a k = a XOR word_of_int k"
| "isa_imm Ori a k = a OR word_of_int k"
| "isa_imm Andi a k = a AND word_of_int k"

primrec isa_shift :: "shift_op \<Rightarrow> u32 \<Rightarrow> nat \<Rightarrow> u32" where
  "isa_shift Slli a n = word_of_int (uint a * 2 ^ n)"
| "isa_shift Srli a n = word_of_int (uint a div 2 ^ n)"
| "isa_shift Srai a n = word_of_int (sint a div 2 ^ n)"

primrec isa_op :: "reg_op \<Rightarrow> u32 \<Rightarrow> u32 \<Rightarrow> u32" where
  "isa_op Add a b = word_of_int (uint a + uint b)"
| "isa_op Sub a b = word_of_int (uint a - uint b)"
| "isa_op Sll a b = word_of_int (uint a * 2 ^ (unat b mod 32))"
| "isa_op Slt a b = of_bool (sint a < sint b)"
| "isa_op Sltu a b = of_bool (uint a < uint b)"
| "isa_op Xor a b = a XOR b"
| "isa_op Srl a b = word_of_int (uint a div 2 ^ (unat b mod 32))"
| "isa_op Sra a b = word_of_int (sint a div 2 ^ (unat b mod 32))"
| "isa_op Or a b = a OR b"
| "isa_op And a b = a AND b"
| "isa_op Mul a b = word_of_int (sint a * sint b)"
| "isa_op Mulh a b = word_of_int (sint a * sint b div 2 ^ 32)"
| "isa_op Mulhsu a b = word_of_int (sint a * uint b div 2 ^ 32)"
| "isa_op Mulhu a b = word_of_int (uint a * uint b div 2 ^ 32)"
| "isa_op Div a b = (if uint b = 0 then -1 else word_of_int (sint a sdiv sint b))"
| "isa_op Divu a b = (if uint b = 0 then -1 else word_of_int (uint a div uint b))"
| "isa_op Rem a b = (if uint b = 0 then a else word_of_int (sint a smod sint b))"
| "isa_op Remu a b = (if uint b = 0 then a else word_of_int (uint a mod uint b))"

primrec isa_exec :: "instr \<Rightarrow> arch \<Rightarrow> arch" where
  "isa_exec (Lui d k) s = next_pc (set_reg d (word_of_int k) s)"
| "isa_exec (Auipc d k) s = next_pc (set_reg d (a_pc s + word_of_int k) s)"
| "isa_exec (Jal d k) s = (set_reg d (a_pc s + 4) s)\<lparr>a_pc := a_pc s + word_of_int k\<rparr>"
| "isa_exec (Jalr d r k) s =
     (set_reg d (a_pc s + 4) s)\<lparr>a_pc := unset_bit 0 (a_reg s r + word_of_int k)\<rparr>"
| "isa_exec (Branch bop r t k) s =
     (if isa_branch bop (a_reg s r) (a_reg s t) then s\<lparr>a_pc := a_pc s + word_of_int k\<rparr> else next_pc s)"
| "isa_exec (Load lop d r k) s =
     next_pc (set_reg d (isa_load lop (a_mem s) (a_reg s r + word_of_int k)) s)"
| "isa_exec (Store sop t r k) s =
     next_pc (s\<lparr>a_mem := overlay (a_mem s) (a_reg s r + word_of_int k) (isa_store sop (a_reg s t))\<rparr>)"
| "isa_exec (OpImm iop d r k) s = next_pc (set_reg d (isa_imm iop (a_reg s r) k) s)"
| "isa_exec (ShiftImm sop d r n) s = next_pc (set_reg d (isa_shift sop (a_reg s r) (unat n)) s)"
| "isa_exec (Op rop d r t) s = next_pc (set_reg d (isa_op rop (a_reg s r) (a_reg s t)) s)"
| "isa_exec (Fence k) s = next_pc s"

section \<open>The operations compute what the manual says\<close>

lemma sint32_bounds: "- (2 ^ 31) \<le> sint (a :: u32)" "sint (a :: u32) < 2 ^ 31"
  using sint_ge [of a] sint_lt [of a] by simp_all

lemma uint32_bounds: "0 \<le> uint (a :: u32)" "uint (a :: u32) < 2 ^ 32"
  using uint_lt2p [of a] by simp_all

text \<open>The 64-bit products of the high-half multiplications do not overflow.\<close>

lemma mult_bounds:
  fixes x y :: int
  assumes "\<bar>x\<bar> \<le> m" "\<bar>y\<bar> \<le> n"
  shows "\<bar>x * y\<bar> \<le> m * n"
  using assms by (simp add: abs_mult mult_mono')

lemma sint_scast64: "sint (scast (a :: u32) :: u64) = sint a"
  by (rule sint_up_scast) (simp add: is_up)

lemma sint_ucast64: "sint (ucast (a :: u32) :: u64) = uint a"
proof -
  have "uint (ucast a :: u64) = uint a"
    by (rule uint_up_ucast) (simp add: is_up)
  moreover have "- (2 ^ 63) \<le> uint a"
    by (rule order_trans [OF _ uint_ge_0]) simp
  moreover have "uint a < 2 ^ 63"
    using uint32_bounds(2) [of a] by simp
  ultimately show ?thesis
    by (simp add: sint_uint signed_take_bit_int_eq_self)
qed

lemma sint_mulh: "sint ((scast (a :: u32) :: u64) * scast (b :: u32)) = sint a * sint b"
proof -
  have "\<bar>sint a * sint b\<bar> \<le> 2 ^ 31 * 2 ^ 31"
    using sint32_bounds [of a] sint32_bounds [of b] by (intro mult_bounds) linarith+
  then show ?thesis
    by (simp add: sint_word_mult sint_scast64 signed_take_bit_int_eq_self)
qed

lemma sint_mulhsu: "sint ((scast (a :: u32) :: u64) * ucast (b :: u32)) = sint a * uint b"
proof -
  have "\<bar>sint a * uint b\<bar> \<le> 2 ^ 31 * (2 ^ 32 - 1)"
    using sint32_bounds [of a] uint32_bounds [of b] by (intro mult_bounds) linarith+
  then show ?thesis
    by (simp add: sint_word_mult sint_scast64 sint_ucast64 signed_take_bit_int_eq_self)
qed

lemma uint_mulhu: "uint ((ucast (a :: u32) :: u64) * ucast (b :: u32)) = uint a * uint b"
proof -
  have "\<bar>uint a * uint b\<bar> \<le> (2 ^ 32 - 1) * (2 ^ 32 - 1)"
    using uint32_bounds [of a] uint32_bounds [of b] by (intro mult_bounds) linarith+
  moreover have "uint (ucast a :: u64) = uint a" "uint (ucast b :: u64) = uint b"
    by (rule uint_up_ucast, simp add: is_up)+
  ultimately show ?thesis
    by (simp add: uint_word_ariths)
qed

lemma ucast_of_sint: "(ucast (w :: u64) :: u32) = word_of_int (sint w)"
  by (rule bit_word_eqI) (simp add: bit_simps)

lemma ucast_of_uint: "(ucast (w :: u64) :: u32) = word_of_int (uint w)"
  by simp

lemma and_31: "unat (b AND 0x1f :: u32) = unat b mod 32"
  using and_mask_unat [of b 5] by simp

lemma push_bit_isa: "push_bit n (a :: u32) = word_of_int (uint a * 2 ^ n)"
  by (simp add: push_bit_eq_mult)

lemma uint_drop_bit: "uint (drop_bit n a) = uint a div 2 ^ n"
proof -
  have "unat (drop_bit n a) = unat a div 2 ^ n"
    by (simp only: unat_drop_bit_eq drop_bit_nat_def)
  then have "int (unat (drop_bit n a)) = int (unat a) div 2 ^ n"
    by (simp only: zdiv_int of_nat_power of_nat_numeral)
  then show ?thesis
    by (simp only: uint_nat)
qed

lemma drop_bit_isa: "drop_bit n (a :: u32) = word_of_int (uint a div 2 ^ n)"
  using word_of_int_uint [of "drop_bit n a"] by (simp only: uint_drop_bit)

lemma word_of_int_sint32: "word_of_int (sint a) = (a :: u32)"
  by simp

lemma signed_drop_bit_isa: "signed_drop_bit n (a :: u32) = word_of_int (sint a div 2 ^ n)"
proof -
  have "sint (signed_drop_bit n a) = sint a div 2 ^ n"
    by (simp only: sint_signed_drop_bit_eq drop_bit_int_def)
  with word_of_int_sint32 [of "signed_drop_bit n a"] show ?thesis
    by simp
qed

lemma op_value_isa:
  "op_value (fst (op_f rop)) (snd (op_f rop)) a b = Some (isa_op rop a b)"
proof (cases rop)
  case Mulh
  have "sint (signed_drop_bit 32 ((scast a :: u64) * scast b)) = sint a * sint b div 2 ^ 32"
    by (simp only: sint_signed_drop_bit_eq drop_bit_int_def sint_mulh)
  then have "(ucast (signed_drop_bit 32 ((scast a :: u64) * scast b)) :: u32)
      = word_of_int (sint a * sint b div 2 ^ 32)"
    by (simp only: ucast_of_sint)
  then show ?thesis
    by (simp add: Mulh op_value_def Let_def)
next
  case Mulhsu
  have "sint (signed_drop_bit 32 ((scast a :: u64) * ucast b)) = sint a * uint b div 2 ^ 32"
    by (simp only: sint_signed_drop_bit_eq drop_bit_int_def sint_mulhsu)
  then have "(ucast (signed_drop_bit 32 ((scast a :: u64) * ucast b)) :: u32)
      = word_of_int (sint a * uint b div 2 ^ 32)"
    by (simp only: ucast_of_sint)
  then show ?thesis
    by (simp add: Mulhsu op_value_def Let_def)
next
  case Mulhu
  have "uint (drop_bit 32 ((ucast a :: u64) * ucast b)) = uint a * uint b div 2 ^ 32"
    by (simp only: uint_drop_bit uint_mulhu)
  then have "(ucast (drop_bit 32 ((ucast a :: u64) * ucast b)) :: u32)
      = word_of_int (uint a * uint b div 2 ^ 32)"
    by (simp only: ucast_of_uint)
  then show ?thesis
    by (simp add: Mulhu op_value_def Let_def)
next
  case Div
  then show ?thesis
    by (auto simp: op_value_def uint_0_iff)
next
  case Rem
  then show ?thesis
    by (auto simp: op_value_def uint_0_iff signed_modulo_int_def)
qed (simp_all add: op_value_def and_31 push_bit_isa drop_bit_isa signed_drop_bit_isa
    word_less_def uint_0_iff word_div_def word_mod_def)

lemma imm_word_bounds:
  "- (2 ^ 11) \<le> k \<Longrightarrow> k < 2 ^ 11 \<Longrightarrow> sint (word_of_int k :: u32) = k"
  by (simp add: sint_sbintrunc' signed_take_bit_int_eq_self)

lemma mem_bytes_read_vec: "mem_bytes (read_u8 m) a n = read_vec m a n"
  by (simp add: mem_bytes_def read_vec_def)

lemma load_value_isa:
  "load_value m (load_f3 lop) a = Some (isa_load lop (read_u8 m) a)"
proof (cases lop)
  case Lhu
  have "le_val (read_vec m a 2) < 65536"
    using le_val_bound [of "read_vec m a 2"] by simp
  then have "unat (read_u16 m a) = le_val (read_vec m a 2)"
    by (simp add: read_u16_bytes from_le_bytes_def unat_of_nat)
  then have "(ucast (read_u16 m a) :: u32) = of_nat (le_val (read_vec m a 2))"
    by (metis of_nat_unat)
  with Lhu show ?thesis
    by (simp add: load_value_def mem_bytes_read_vec)
qed (simp_all add: load_value_def mem_bytes_read_vec read_u16_bytes read_u32_bytes from_le_bytes_def)

lemma to_le_bytes_ucast:
  "to_le_bytes (ucast (v :: u32) :: u16) = le_bytes 2 (unat v)"
  "[ucast v] = le_bytes 1 (unat v)"
  "to_le_bytes v = le_bytes 4 (unat v)"
proof -
  have "unat (ucast v :: u16) = unat v mod 65536"
    by (simp add: unsigned_ucast_eq take_bit_eq_mod)
  then show "to_le_bytes (ucast v :: u16) = le_bytes 2 (unat v)"
    by (intro le_val_inj) (simp_all add: to_le_bytes_def le_val_le_bytes)
qed (simp_all add: to_le_bytes_def)

section \<open>The processor refines the abstract machine\<close>

lemma abs_cpu_fields [simp]:
  "a_pc (abs_cpu c) = cpu_pc c" "a_reg (abs_cpu c) r = read_reg c (ucast r)"
  "a_mem (abs_cpu c) = read_u8 (cpu_mem c)"
  by (simp_all add: abs_cpu_def)

lemma unat_reg_less [simp]: "unat (r :: reg) < 32"
proof -
  have "unat r < 2 ^ LENGTH(5)"
    by (rule unsigned_less)
  then show ?thesis
    by simp
qed

lemma unat_reg [simp]: "unat (ucast (r :: reg) :: u32) = unat r"
  using less_trans [OF unat_reg_less [of r], of "2 ^ 32"]
  by (simp add: unsigned_ucast_eq take_bit_nat_eq_self)

lemma reg_eq_iff: "(ucast (r :: reg) :: u32) = ucast s \<longleftrightarrow> r = s" "(ucast r :: u32) = 0 \<longleftrightarrow> r = 0"
  by (simp_all add: word_unat_eq_iff)

lemma abs_cpu_write_reg:
  "wf_cpu c \<Longrightarrow> abs_cpu (write_reg c (ucast d) v) = set_reg d v (abs_cpu c)"
  by (auto simp: abs_cpu_def set_reg_def read_reg_write_reg reg_eq_iff fun_eq_iff)

lemma abs_cpu_pc: "abs_cpu (c\<lparr>cpu_pc := p\<rparr>) = (abs_cpu c)\<lparr>a_pc := p\<rparr>"
  by (simp add: abs_cpu_def)

lemma abs_cpu_mem:
  "abs_cpu (c\<lparr>cpu_mem := m, cpu_pc := p\<rparr>) = (abs_cpu c)\<lparr>a_mem := read_u8 m, a_pc := p\<rparr>"
  by (simp add: abs_cpu_def)

lemma a_pc_set_reg [simp]: "a_pc (set_reg d v s) = a_pc s"
  by (simp add: set_reg_def)

lemma small_codes:
  "unat (branch_f3 bop) < 8" "unat (load_f3 lop) < 8" "unat (store_f3 sop) < 8" "unat (imm_f3 iop) < 8"
  "unat (snd (shift_f shop)) < 8" "unat (fst (shift_f shop)) < 128"
  "unat (snd (op_f rop)) < 8" "unat (fst (op_f rop)) < 128"
proof -
  show "unat (branch_f3 bop) < 8" by (cases bop) simp_all
  show "unat (load_f3 lop) < 8" by (cases lop) simp_all
  show "unat (store_f3 sop) < 8" by (cases sop) simp_all
  show "unat (imm_f3 iop) < 8" by (cases iop) simp_all
  show "unat (snd (shift_f shop)) < 8" "unat (fst (shift_f shop)) < 128" by (cases shop; simp)+
  show "unat (snd (op_f rop)) < 8" "unat (fst (op_f rop)) < 128" by (cases rop; simp)+
qed

text \<open>One step of the processor on an encoded instruction: it continues, does not involve the
  handler, and reaches the state the manual prescribes.\<close>

definition executes :: "instr \<Rightarrow> cpu \<Rightarrow> 'h \<Rightarrow> step_outcome res \<times> cpu \<times> 'h \<Rightarrow> bool" where
  "executes i c h r \<longleftrightarrow>
     (\<exists>c'. r = (Inr Continue, c', h) \<and> abs_cpu c' = isa_exec i (abs_cpu c) \<and>
        wf_cpu c' \<and> cpu_steps c' = cpu_steps c)"

lemma executes_regI:
  assumes "wf_cpu c" "isa_exec i (abs_cpu c) = next_pc (set_reg d v (abs_cpu c))"
  shows "executes i c h (Inr Continue, (write_reg c (ucast d) v)\<lparr>cpu_pc := cpu_pc c + 4\<rparr>, h)"
  using assms by (simp add: executes_def abs_cpu_pc abs_cpu_write_reg next_pc_def keeps_wf)

lemma branch_taken_isa: "branch_taken (branch_f3 bop) a b = Some (isa_branch bop a b)"
  by (cases bop) (simp_all add: branch_taken_def word_less_def word_le_def)

lemma store_value_isa:
  assumes "wf_memory m"
  shows "\<exists>m'. store_value m (store_f3 sop) a v = Some m' \<and>
     read_u8 m' = overlay (read_u8 m) a (isa_store sop v)"
proof (cases sop)
  case Sb
  have "read_u8 (write_slice m a [ucast v]) = overlay (read_u8 m) a [ucast v]"
    using assms by (simp add: read_u8_write_slice)
  with Sb show ?thesis
    unfolding isa_store.simps to_le_bytes_ucast(2) [symmetric]
    by (simp add: store_value_def write_slice_def)
next
  case Sh
  with assms show ?thesis
    by (simp add: store_value_def read_u8_write_u16 to_le_bytes_ucast(1))
next
  case Sw
  with assms show ?thesis
    by (simp add: store_value_def read_u8_write_u32 to_le_bytes_ucast(3))
qed

lemma op_imm_value_isa:
  assumes "rs1 w = ucast r" "funct3 w = imm_f3 iop" "imm_i w = word_of_int k"
    "- (2 ^ 11) \<le> k" "k < 2 ^ 11"
  shows "op_imm_value w c = Inr (isa_imm iop (read_reg c (ucast r)) k)"
  using assms imm_word_bounds [of k]
  by (cases iop) (simp_all add: op_imm_value_def Let_def word_less_def)

lemma op_imm_shift_isa:
  fixes n :: "5 word"
  assumes "rs1 w = ucast r" "funct3 w = snd (shift_f shop)" "funct7 w = fst (shift_f shop)"
    "rs2 w = ucast n"
  shows "op_imm_value w c = Inr (isa_shift shop (read_reg c (ucast r)) (unat n))"
proof -
  have "unat (shamt w) = unat n"
    using assms by (simp add: shamt_def and_31)
  with assms show ?thesis
    by (cases shop) (simp_all add: op_imm_value_def Let_def push_bit_isa drop_bit_isa
        signed_drop_bit_isa)
qed

lemma and_not_1: "(a AND - 2 :: u32) = unset_bit 0 a"
  by (simp add: unset_bit_eq_and_not)

lemma executesI:
  "abs_cpu c' = isa_exec i (abs_cpu c) \<Longrightarrow> wf_cpu c' \<Longrightarrow> cpu_steps c' = cpu_steps c \<Longrightarrow>
   executes i c h (Inr Continue, c', h)"
  by (simp add: executes_def)

lemma then_continue_Inr [simp]: "then_continue (Inr u, c) h = (Inr Continue, c, h)"
  by (simp add: then_continue_def)

lemmas step_simps = step_def Let_def dispatch_defs

lemma step_executes:
  assumes wf: "wf_cpu c" and at_pc: "read_u32 (cpu_mem c) (cpu_pc c) = encode i"
    and enc: "encodable i"
  shows "executes i c h (step handler c h)"
proof (cases i)
  case (Lui d k)
  with enc have "opcode (encode i) = 0b0110111" "rd (encode i) = ucast d"
    "imm_u (encode i) = word_of_int k"
    using U_type_fields [of "ucast d" "0b0110111" k] by simp_all
  then show ?thesis
    by (simp add: step_simps at_pc executes_regI wf Lui)
next
  case (Auipc d k)
  with enc have "opcode (encode i) = 0b0010111" "rd (encode i) = ucast d"
    "imm_u (encode i) = word_of_int k"
    using U_type_fields [of "ucast d" "0b0010111" k] by simp_all
  then show ?thesis
    by (simp add: step_simps at_pc executes_regI wf Auipc)
next
  case (Jal d k)
  with enc have "opcode (encode i) = 0b1101111" "rd (encode i) = ucast d"
    "imm_j (encode i) = word_of_int k"
    using J_type_fields [of "ucast d" "0b1101111" k] by simp_all
  then show ?thesis
    by (simp add: step_simps at_pc wf Jal executesI abs_cpu_pc abs_cpu_write_reg keeps_wf)
next
  case (Jalr d r k)
  with enc have "opcode (encode i) = 0b1100111" "rd (encode i) = ucast d" "rs1 (encode i) = ucast r"
    "imm_i (encode i) = word_of_int k"
    using I_type_fields [of "ucast d" "ucast r" 0 "0b1100111" k] by simp_all
  then show ?thesis
    by (simp add: step_simps at_pc wf Jalr executesI abs_cpu_pc abs_cpu_write_reg and_not_1
        keeps_wf)
next
  case (Branch bop r t k)
  with enc have "opcode (encode i) = 0b1100011" "rs1 (encode i) = ucast r" "rs2 (encode i) = ucast t"
    "funct3 (encode i) = branch_f3 bop" "imm_b (encode i) = word_of_int k"
    using B_type_fields [of "ucast r" "ucast t" "branch_f3 bop" "0b1100011" k]
    by (simp_all add: small_codes)
  then show ?thesis
    by (simp add: step_simps at_pc wf Branch exec_branch_def branch_taken_isa executesI abs_cpu_pc
        next_pc_def)
next
  case (Load lop d r k)
  with enc have "opcode (encode i) = 0b0000011" "rd (encode i) = ucast d" "rs1 (encode i) = ucast r"
    "funct3 (encode i) = load_f3 lop" "imm_i (encode i) = word_of_int k"
    using I_type_fields [of "ucast d" "ucast r" "load_f3 lop" "0b0000011" k]
    by (simp_all add: small_codes)
  then show ?thesis
    by (simp add: step_simps at_pc Load exec_load_def load_value_isa wf executes_regI)
next
  case (Store sop t r k)
  with enc have f: "opcode (encode i) = 0b0100011" "rs1 (encode i) = ucast r" "rs2 (encode i) = ucast t"
    "funct3 (encode i) = store_f3 sop" "imm_s (encode i) = word_of_int k"
    using S_type_fields [of "ucast r" "ucast t" "store_f3 sop" "0b0100011" k]
    by (simp_all add: small_codes)
  obtain m where m: "store_value (cpu_mem c) (store_f3 sop) (read_reg c (ucast r) + word_of_int k)
      (read_reg c (ucast t)) = Some m"
    "read_u8 m = overlay (read_u8 (cpu_mem c)) (read_reg c (ucast r) + word_of_int k)
      (isa_store sop (read_reg c (ucast t)))"
    using store_value_isa wf_cpu_memory [OF wf] by blast
  moreover from m have "wf_cpu (c\<lparr>cpu_mem := m, cpu_pc := cpu_pc c + 4\<rparr>)"
    using wf wf_store_value [OF wf_cpu_memory [OF wf] m(1)] by (simp add: wf_cpu_def)
  ultimately show ?thesis
    using f by (simp add: step_simps at_pc Store exec_store_def executesI abs_cpu_mem next_pc_def)
next
  case (OpImm iop d r k)
  with enc have f: "opcode (encode i) = 0b0010011" "rd (encode i) = ucast d"
    "rs1 (encode i) = ucast r" "funct3 (encode i) = imm_f3 iop" "imm_i (encode i) = word_of_int k"
    using I_type_fields [of "ucast d" "ucast r" "imm_f3 iop" "0b0010011" k]
    by (simp_all add: small_codes)
  from op_imm_value_isa [OF f(3-5), of c] enc OpImm f(1,2) show ?thesis
    by (simp add: step_simps at_pc exec_op_imm_def wf executes_regI)
next
  case (ShiftImm shop d r n)
  then have f: "opcode (encode i) = 0b0010011" "rd (encode i) = ucast d"
    "rs1 (encode i) = ucast r" "funct3 (encode i) = snd (shift_f shop)"
    "funct7 (encode i) = fst (shift_f shop)" "rs2 (encode i) = ucast n"
    using R_type_fields [of "ucast d" "ucast r" "ucast n" "snd (shift_f shop)" "fst (shift_f shop)"
        "0b0010011"]
    by (simp_all add: small_codes)
  from op_imm_shift_isa [OF f(3-6), of c] ShiftImm f(1,2) show ?thesis
    by (simp add: step_simps at_pc exec_op_imm_def wf executes_regI)
next
  case (Op rop d r t)
  then have f: "opcode (encode i) = 0b0110011" "rd (encode i) = ucast d"
    "rs1 (encode i) = ucast r" "rs2 (encode i) = ucast t" "funct3 (encode i) = snd (op_f rop)"
    "funct7 (encode i) = fst (op_f rop)"
    using R_type_fields [of "ucast d" "ucast r" "ucast t" "snd (op_f rop)" "fst (op_f rop)"
        "0b0110011"]
    by (simp_all add: small_codes)
  then show ?thesis
    by (simp add: step_simps at_pc Op exec_op_def op_value_isa wf executes_regI)
next
  case (Fence k)
  with enc have "opcode (encode i) = 0b0001111"
    using I_type_fields [of 0 0 0 "0b0001111" k] by simp
  then show ?thesis
    by (simp add: step_simps at_pc wf Fence executesI abs_cpu_pc next_pc_def)
qed

section \<open>Properties\<close>

text \<open>C3. The interpreter implements RV32IM: at the binary encoding of any of its instructions
  \<open>step\<close> continues without asking the custom-opcode handler, and the new program counter,
  registers and memory are those the abstract machine prescribes, with the high halves of products,
  the divisions and the shifts given by integer arithmetic; the processor stays well formed.\<close>

theorem processor_refines_isa:
  assumes "wf_cpu c" and "read_u32 (cpu_mem c) (cpu_pc c) = encode i" and "encodable i"
  shows "\<exists>c'. step handler c h = (Inr Continue, c', h) \<and> abs_cpu c' = isa_exec i (abs_cpu c) \<and>
    wf_cpu c' \<and> cpu_steps c' = cpu_steps c"
  using step_executes [OF assms] by (simp add: executes_def)

text \<open>A program of one instruction, loaded at an address.\<close>

definition one_insn :: "u32 \<Rightarrow> u32 \<Rightarrow> loaded_program" where
  "one_insn a w = \<lparr>entry = a, segments = [\<lparr>vaddr = a, mem_size = 4, writable = False,
     executable = True, seg_data = to_le_bytes w\<rparr>]\<rparr>"

lemma fetch_one_insn: "read_u32 (cpu_mem (new_cpu (one_insn a w))) (cpu_pc (new_cpu (one_insn a w))) = w"
proof -
  have "read_vec (write_slice new_memory a (to_le_bytes w)) a (length (to_le_bytes w)) = to_le_bytes w"
    by (rule read_vec_write_slice) (simp_all add: keeps_wf)
  then show ?thesis
    by (simp add: new_cpu_def one_insn_def Let_def read_u32_bytes from_to_le_bytes)
qed

theorem processor_refines_isa_witness:
  "\<exists>c'. step (\<lambda>insn c h. (Inr (Terminated 0), c, h)) (new_cpu (one_insn 0x1000 (encode (OpImm Addi 1 2 (-3))))) ()
     = (Inr Continue, c', ()) \<and> cpu_pc c' = 0x1004 \<and> read_reg c' 1 = 0xFFFFFFED"
proof -
  let ?i = "OpImm Addi 1 2 (-3)"
  let ?c = "new_cpu (one_insn 0x1000 (encode ?i))"
  have "encodable ?i"
    by simp
  from processor_refines_isa [OF wf_new_cpu [of "one_insn 0x1000 (encode ?i)"] fetch_one_insn this,
      where handler = "\<lambda>insn c h. (Inr (Terminated 0), c, h)" and h = "()"]
  obtain c' where
    s: "step (\<lambda>insn c h. (Inr (Terminated 0), c, h)) ?c () = (Inr Continue, c', ())"
    and a: "abs_cpu c' = isa_exec ?i (abs_cpu ?c)"
    by blast
  have x: "read_reg (new_cpu (one_insn a w)) 2 = 0xFFFFFFF0" "cpu_pc (new_cpu (one_insn a w)) = a" for a w
    by (simp_all add: new_cpu_def one_insn_def Let_def read_reg_def DEFAULT_STACK_TOP_def)
  from arg_cong [OF a, of a_pc] have "cpu_pc c' = 0x1004"
    by (simp add: next_pc_def x)
  moreover from fun_cong [OF arg_cong [OF a, of a_reg], of 1] have "read_reg c' 1 = 0xFFFFFFED"
    by (simp add: next_pc_def set_reg_def x)
  ultimately show ?thesis
    using s by blast
qed

text \<open>C4. Outside the custom opcodes a step never panics and never fails half-way: it either
  continues, or it reports a raw ECALL, an EBREAK or an illegal instruction at the current program
  counter and leaves registers, memory, program counter and handler exactly as they were.\<close>

theorem base_step_errors_are_atomic:
  assumes "wf_cpu c" and "\<not> custom_opcode (read_u32 (cpu_mem c) (cpu_pc c))"
  shows "(\<exists>c'. step handler c h = (Inr Continue, c', h) \<and> wf_cpu c' \<and> cpu_steps c' = cpu_steps c) \<or>
    (\<exists>e. step handler c h = (Inl (Failed e), c, h) \<and>
       (e = ECall (cpu_pc c) \<or> e = EBreak (cpu_pc c) \<or> (\<exists>insn. e = IllegalInstruction (cpu_pc c) insn)))"
  using step_plain [OF assms, of h handler] by (simp add: plain_step_ok_def)

theorem base_step_errors_are_atomic_witness:
  "(\<exists>c'. step (\<lambda>insn c h. (Inr (Terminated 0), c, h)) (new_cpu (one_insn 0 0x73)) ()
       = (Inr Continue, c', ()) \<and> wf_cpu c' \<and> cpu_steps c' = cpu_steps (new_cpu (one_insn 0 0x73))) \<or>
   (\<exists>e. step (\<lambda>insn c h. (Inr (Terminated 0), c, h)) (new_cpu (one_insn 0 0x73)) ()
       = (Inl (Failed e), new_cpu (one_insn 0 0x73), ()) \<and>
       (e = ECall (cpu_pc (new_cpu (one_insn 0 0x73))) \<or> e = EBreak (cpu_pc (new_cpu (one_insn 0 0x73))) \<or>
        (\<exists>insn. e = IllegalInstruction (cpu_pc (new_cpu (one_insn 0 0x73))) insn)))"
  by (rule base_step_errors_are_atomic [OF wf_new_cpu])
    (simp add: fetch_one_insn custom_opcode_def opcode_def dispatch_defs)

end
