(* ===== verification/Encoding.thy ===== *)
theory Encoding
  imports Decode
begin

text \<open>
  The constants of \<^verbatim>\<open>precompiles/src/encoding.rs\<close>: how a custom instruction encodes the
  extension, the operation and the index of the modulus or curve. The two opcodes are declared in
  \<^verbatim>\<open>rv32im/src/decode.rs\<close> as well and taken from there.
\<close>

definition F3_TERMINATE :: u32 where [dispatch_defs]: "F3_TERMINATE = 0"
definition F3_HINT :: u32 where [dispatch_defs]: "F3_HINT = 1"
definition F3_REVEAL :: u32 where [dispatch_defs]: "F3_REVEAL = 2"
definition F3_PHANTOM :: u32 where [dispatch_defs]: "F3_PHANTOM = 3"
definition F3_HASH :: u32 where [dispatch_defs]: "F3_HASH = 4"
definition F7_KECCAKF :: u32 where [dispatch_defs]: "F7_KECCAKF = 0"
definition F7_XORIN :: u32 where [dispatch_defs]: "F7_XORIN = 1"
definition F7_SHA256_COMPRESS :: u32 where [dispatch_defs]: "F7_SHA256_COMPRESS = 2"
definition F7_SHA512_COMPRESS :: u32 where [dispatch_defs]: "F7_SHA512_COMPRESS = 3"
definition F3_INT256 :: u32 where [dispatch_defs]: "F3_INT256 = 5"
definition F3_BEQ256 :: u32 where [dispatch_defs]: "F3_BEQ256 = 6"
definition F3_NATIVE_STOREW :: u32 where [dispatch_defs]: "F3_NATIVE_STOREW = 7"
definition HINT_STOREW_IMM :: u32 where [dispatch_defs]: "HINT_STOREW_IMM = 0"
definition HINT_BUFFER_IMM :: u32 where [dispatch_defs]: "HINT_BUFFER_IMM = 1"
definition PHANTOM_HINT_INPUT :: u32 where [dispatch_defs]: "PHANTOM_HINT_INPUT = 0"
definition PHANTOM_PRINT_STR :: u32 where [dispatch_defs]: "PHANTOM_PRINT_STR = 1"
definition PHANTOM_HINT_RANDOM :: u32 where [dispatch_defs]: "PHANTOM_HINT_RANDOM = 2"
definition PHANTOM_HINT_LOAD_BY_KEY :: u32 where [dispatch_defs]: "PHANTOM_HINT_LOAD_BY_KEY = 3"
definition F3_MODULAR :: u32 where [dispatch_defs]: "F3_MODULAR = 0"
definition F3_SW :: u32 where [dispatch_defs]: "F3_SW = 1"
definition F3_COMPLEX :: u32 where [dispatch_defs]: "F3_COMPLEX = 2"
definition F3_PAIRING :: u32 where [dispatch_defs]: "F3_PAIRING = 3"
definition MODULAR_MAX_KINDS :: u32 where [dispatch_defs]: "MODULAR_MAX_KINDS = 8"
definition MOD_ADD :: u32 where [dispatch_defs]: "MOD_ADD = 0"
definition MOD_SUB :: u32 where [dispatch_defs]: "MOD_SUB = 1"
definition MOD_MUL :: u32 where [dispatch_defs]: "MOD_MUL = 2"
definition MOD_DIV :: u32 where [dispatch_defs]: "MOD_DIV = 3"
definition MOD_ISEQ :: u32 where [dispatch_defs]: "MOD_ISEQ = 4"
definition MOD_SETUP :: u32 where [dispatch_defs]: "MOD_SETUP = 5"
definition COMPLEX_MAX_KINDS :: u32 where [dispatch_defs]: "COMPLEX_MAX_KINDS = 8"
definition COMPLEX_ADD :: u32 where [dispatch_defs]: "COMPLEX_ADD = 0"
definition COMPLEX_SUB :: u32 where [dispatch_defs]: "COMPLEX_SUB = 1"
definition COMPLEX_MUL :: u32 where [dispatch_defs]: "COMPLEX_MUL = 2"
definition COMPLEX_DIV :: u32 where [dispatch_defs]: "COMPLEX_DIV = 3"
definition COMPLEX_SETUP :: u32 where [dispatch_defs]: "COMPLEX_SETUP = 5"
definition SW_MAX_KINDS :: u32 where [dispatch_defs]: "SW_MAX_KINDS = 8"
definition SW_ADD_NE :: u32 where [dispatch_defs]: "SW_ADD_NE = 0"
definition SW_DOUBLE :: u32 where [dispatch_defs]: "SW_DOUBLE = 1"
definition SW_SETUP :: u32 where [dispatch_defs]: "SW_SETUP = 2"
definition SW_HINT_DECOMPRESS :: u32 where [dispatch_defs]: "SW_HINT_DECOMPRESS = 3"
definition SW_HINT_NON_QR :: u32 where [dispatch_defs]: "SW_HINT_NON_QR = 4"
definition PAIRING_MAX_KINDS :: u32 where [dispatch_defs]: "PAIRING_MAX_KINDS = 16"
definition PAIRING_HINT_FINAL_EXP :: u32 where [dispatch_defs]: "PAIRING_HINT_FINAL_EXP = 0"
definition PAIRING_MILLER_DOUBLE :: u32 where [dispatch_defs]: "PAIRING_MILLER_DOUBLE = 1"
definition PAIRING_MILLER_DOUBLE_AND_ADD :: u32 where [dispatch_defs]: "PAIRING_MILLER_DOUBLE_AND_ADD = 2"
definition PAIRING_MILLER_LOOP :: u32 where [dispatch_defs]: "PAIRING_MILLER_LOOP = 3"
definition INT256_ADD :: u32 where [dispatch_defs]: "INT256_ADD = 0"
definition INT256_SUB :: u32 where [dispatch_defs]: "INT256_SUB = 1"
definition INT256_XOR :: u32 where [dispatch_defs]: "INT256_XOR = 2"
definition INT256_OR :: u32 where [dispatch_defs]: "INT256_OR = 3"
definition INT256_AND :: u32 where [dispatch_defs]: "INT256_AND = 4"
definition INT256_SLL :: u32 where [dispatch_defs]: "INT256_SLL = 5"
definition INT256_SRL :: u32 where [dispatch_defs]: "INT256_SRL = 6"
definition INT256_SRA :: u32 where [dispatch_defs]: "INT256_SRA = 7"
definition INT256_SLT :: u32 where [dispatch_defs]: "INT256_SLT = 8"
definition INT256_SLTU :: u32 where [dispatch_defs]: "INT256_SLTU = 9"
definition INT256_MUL :: u32 where [dispatch_defs]: "INT256_MUL = 10"

text \<open>Two more operations of the modular extension, from \<^verbatim>\<open>precompiles/src/modular.rs\<close>.\<close>

definition MOD_HINT_NON_QR :: u32 where [dispatch_defs]: "MOD_HINT_NON_QR = 6"
definition MOD_HINT_SQRT :: u32 where [dispatch_defs]: "MOD_HINT_SQRT = 7"

end
