(* ===== verification/Format.thy ===== *)
theory Format
  imports Prelude
begin

text \<open>
  The number formats of the error messages and of the command line's output: \<^verbatim>\<open>{}\<close>,
  \<^verbatim>\<open>{:x}\<close>, \<^verbatim>\<open>{:08x}\<close>, \<^verbatim>\<open>{:02x}\<close> and \<^verbatim>\<open>{:03b}\<close> of Rust's \<^verbatim>\<open>format!\<close>.
\<close>

definition digit_char :: "nat \<Rightarrow> char" where
  "digit_char d = (if d < 10 then char_of (48 + d) else char_of (87 + d))"

fun fmt_radix :: "nat \<Rightarrow> nat \<Rightarrow> string" where
  "fmt_radix b n = (if b < 2 \<or> n < b then [digit_char n]
     else fmt_radix b (n div b) @ [digit_char (n mod b)])"

declare fmt_radix.simps [simp del]

definition pad_zeros :: "nat \<Rightarrow> string \<Rightarrow> string" where
  "pad_zeros w s = replicate (w - length s) CHR ''0'' @ s"

definition fmt_dec :: "nat \<Rightarrow> string" where
  "fmt_dec n = fmt_radix 10 n"

definition fmt_x :: "nat \<Rightarrow> string" where
  "fmt_x n = fmt_radix 16 n"

definition fmt_08x :: "u32 \<Rightarrow> string" where
  "fmt_08x w = pad_zeros 8 (fmt_radix 16 (unat w))"

definition fmt_02x :: "u8 \<Rightarrow> string" where
  "fmt_02x b = pad_zeros 2 (fmt_radix 16 (unat b))"

definition fmt_03b :: "u32 \<Rightarrow> string" where
  "fmt_03b w = pad_zeros 3 (fmt_radix 2 (unat w))"

text \<open>The em dash of a string literal, in its three UTF-8 bytes.\<close>

definition em_dash :: string where
  "em_dash = [CHR 0xE2, CHR 0x80, CHR 0x94]"

section \<open>Reading a number back\<close>

definition digit_val :: "char \<Rightarrow> nat" where
  "digit_val ch = (if of_char ch < (58::nat) then of_char ch - 48 else of_char ch - 87)"

definition radix_val :: "nat \<Rightarrow> string \<Rightarrow> nat" where
  "radix_val b s = foldl (\<lambda>n ch. b * n + digit_val ch) 0 s"

lemma digit_val_char [simp]: "d < 16 \<Longrightarrow> digit_val (digit_char d) = d"
  by (auto simp: digit_val_def digit_char_def)

lemma radix_val_snoc [simp]: "radix_val b (s @ [ch]) = b * radix_val b s + digit_val ch"
  by (simp add: radix_val_def)

lemma radix_val_fmt: "2 \<le> b \<Longrightarrow> b \<le> 16 \<Longrightarrow> radix_val b (fmt_radix b n) = n"
proof (induction b n rule: fmt_radix.induct)
  case (1 b n)
  show ?case
  proof (cases "n < b")
    case True
    with 1 show ?thesis
      by (subst fmt_radix.simps) (simp add: radix_val_def)
  next
    case False
    have "n mod b < 16"
      using 1 by (intro less_le_trans [OF mod_less_divisor]) simp_all
    with 1 False show ?thesis
      by (subst fmt_radix.simps) simp
  qed
qed

lemma radix_val_pad: "radix_val b (pad_zeros w s) = radix_val b s"
proof -
  have "foldl (\<lambda>n ch. b * n + digit_val ch) 0 (replicate k CHR ''0'') = 0" for k
    by (induction k) (auto simp: digit_val_def)
  then show ?thesis
    by (simp add: radix_val_def pad_zeros_def)
qed

lemma length_fmt_radix: "2 \<le> b \<Longrightarrow> 0 < k \<Longrightarrow> n < b ^ k \<Longrightarrow> length (fmt_radix b n) \<le> k"
proof (induction k arbitrary: n)
  case (Suc k)
  show ?case
  proof (cases "n < b")
    case True
    then show ?thesis
      by (subst fmt_radix.simps) simp
  next
    case False
    with Suc.prems have "0 < k"
      by (cases k) auto
    moreover have "n div b < b ^ k"
      using Suc.prems by (simp add: less_mult_imp_div_less mult.commute)
    ultimately show ?thesis
      using False Suc by (subst fmt_radix.simps) simp
  qed
qed simp

lemma fmt_08x_length: "length (fmt_08x w) = 8"
proof -
  have "unat w < 16 ^ 8"
    by (rule unsigned_less [THEN less_le_trans]) simp
  from length_fmt_radix [OF _ _ this] show ?thesis
    by (simp add: fmt_08x_def pad_zeros_def)
qed

lemma fmt_02x_length: "length (fmt_02x b) = 2"
proof -
  have "unat b < 16 ^ 2"
    by (rule unsigned_less [THEN less_le_trans]) simp
  from length_fmt_radix [OF _ _ this] show ?thesis
    by (simp add: fmt_02x_def pad_zeros_def)
qed

lemma fmt_08x_inject: "fmt_08x v = fmt_08x w \<Longrightarrow> v = w"
  unfolding fmt_08x_def
  by (metis radix_val_fmt radix_val_pad word_unat_eq_iff le_refl numeral_le_iff semiring_norm(68,69,71,75))

lemma fmt_02x_inverse: "radix_val 16 (fmt_02x b) = unat b"
  by (simp add: fmt_02x_def radix_val_pad radix_val_fmt)

end
