(* ===== verification/Int256.thy ===== *)
theory Int256
  imports Cpu Encoding Format
begin

text \<open>
  The 256-bit integer operations of \<^verbatim>\<open>precompiles/src/int256.rs\<close>: byte-by-byte routines on
  32-byte little-endian buffers, and the arithmetic of 256-bit words they implement.
\<close>

section \<open>Buffers\<close>

definition read32 :: "cpu \<Rightarrow> u32 \<Rightarrow> u8 list" where
  "read32 c ptr = map (\<lambda>i. read_u8 (cpu_mem c) (ptr + of_nat i)) [0..<32]"

definition write32 :: "cpu \<Rightarrow> u32 \<Rightarrow> u8 list \<Rightarrow> cpu" where
  "write32 c ptr val = c\<lparr>cpu_mem := write_bytes_from (cpu_mem c) ptr 0 val\<rparr>"

section \<open>Byte-wise routines\<close>

fun add_loop :: "u16 \<Rightarrow> u8 list \<Rightarrow> u8 list \<Rightarrow> u8 list" where
  "add_loop carry (a # as) (b # bs) =
     (let s = ucast a + ucast b + carry in ucast s # add_loop (drop_bit 8 s) as bs)"
| "add_loop carry _ _ = []"

definition add256 :: "u8 list \<Rightarrow> u8 list \<Rightarrow> u8 list" where
  "add256 a b = add_loop 0 a b"

text \<open>The difference of two bytes and the borrow is an \<^verbatim>\<open>i16\<close>.\<close>

fun sub_loop :: "16 word \<Rightarrow> u8 list \<Rightarrow> u8 list \<Rightarrow> u8 list" where
  "sub_loop borrow (a # as) (b # bs) =
     (let s = ucast a - ucast b - borrow in
      if s <s 0 then ucast (s + 256) # sub_loop 1 as bs
      else ucast s # sub_loop 0 as bs)"
| "sub_loop borrow _ _ = []"

definition sub256 :: "u8 list \<Rightarrow> u8 list \<Rightarrow> u8 list" where
  "sub256 a b = sub_loop 0 a b"

definition xor256 :: "u8 list \<Rightarrow> u8 list \<Rightarrow> u8 list" where
  "xor256 a b = map (\<lambda>i. a ! i XOR b ! i) [0..<32]"

definition and256 :: "u8 list \<Rightarrow> u8 list \<Rightarrow> u8 list" where
  "and256 a b = map (\<lambda>i. a ! i AND b ! i) [0..<32]"

definition or256 :: "u8 list \<Rightarrow> u8 list \<Rightarrow> u8 list" where
  "or256 a b = map (\<lambda>i. a ! i OR b ! i) [0..<32]"

definition shift_amount :: "u8 list \<Rightarrow> u32" where
  "shift_amount b = ucast (b ! 0)"

text \<open>The range \<^verbatim>\<open>32 - 1..0\<close> of the first loop of the unaligned case is empty; the loop after it
  computes every byte.\<close>

definition shl256 :: "u8 list \<Rightarrow> u32 \<Rightarrow> u8 list" where
  "shl256 a amt =
     (if amt \<ge> 256 then replicate 32 0
      else
        let byte_off = unat (amt div 8); bit_off = unat (amt mod 8) in
        if bit_off = 0 then map (\<lambda>i. if byte_off \<le> i then a ! (i - byte_off) else 0) [0..<32]
        else map (\<lambda>i.
          let hi = (if i \<ge> byte_off then a ! (i - byte_off) else 0);
              lo = (if i > byte_off then a ! (i - byte_off - 1) else 0)
          in push_bit bit_off hi OR drop_bit (8 - bit_off) lo) [0..<32])"

definition shr_logical :: "u8 list \<Rightarrow> u32 \<Rightarrow> u8 list" where
  "shr_logical a amt =
     (if amt \<ge> 256 then replicate 32 0
      else
        let byte_off = unat (amt div 8); bit_off = unat (amt mod 8) in
        if bit_off = 0 then map (\<lambda>i. if i < 32 - byte_off then a ! (i + byte_off) else 0) [0..<32]
        else map (\<lambda>i.
          let lo = (if i + byte_off < 32 then a ! (i + byte_off) else 0);
              hi = (if i + byte_off + 1 < 32 then a ! (i + byte_off + 1) else 0)
          in drop_bit bit_off lo OR push_bit (8 - bit_off) hi) [0..<32])"

definition shr_arith :: "u8 list \<Rightarrow> u32 \<Rightarrow> u8 list" where
  "shr_arith a amt =
     (let sign = (a ! 31 AND 0x80 \<noteq> 0); fill = (if sign then 0xff else 0x00) in
      if amt \<ge> 256 then replicate 32 fill
      else
        let byte_off = unat (amt div 8); bit_off = unat (amt mod 8) in
        if bit_off = 0 then map (\<lambda>i. if i < 32 - byte_off then a ! (i + byte_off) else fill) [0..<32]
        else map (\<lambda>i.
          let lo = (if i + byte_off < 32 then a ! (i + byte_off) else fill);
              hi = (if i + byte_off + 1 < 32 then a ! (i + byte_off + 1) else fill)
          in drop_bit bit_off lo OR push_bit (8 - bit_off) hi) [0..<32])"

text \<open>The schoolbook product: columns of 32-bit sums, then one carry pass.\<close>

definition mul_row :: "u8 list \<Rightarrow> u8 list \<Rightarrow> nat \<Rightarrow> u32 list \<Rightarrow> u32 list" where
  "mul_row a b i r =
     fold (\<lambda>j r. r[i + j := r ! (i + j) + ucast (a ! i) * ucast (b ! j)]) [0..<32 - i] r"

definition mul_columns :: "u8 list \<Rightarrow> u8 list \<Rightarrow> u32 list" where
  "mul_columns a b = fold (mul_row a b) [0..<32] (replicate 32 0)"

primrec carry_loop :: "u32 \<Rightarrow> u32 list \<Rightarrow> u8 list" where
  "carry_loop carry [] = []"
| "carry_loop carry (x # r) = (let v = x + carry in ucast v # carry_loop (drop_bit 8 v) r)"

definition mul256 :: "u8 list \<Rightarrow> u8 list \<Rightarrow> u8 list" where
  "mul256 a b = carry_loop 0 (mul_columns a b)"

datatype ordering = Less | Equal | Greater

definition cmp_u8 :: "u8 \<Rightarrow> u8 \<Rightarrow> ordering" where
  "cmp_u8 a b = (if a < b then Less else if a = b then Equal else Greater)"

primrec cmp_loop :: "(u8 \<times> u8) list \<Rightarrow> ordering" where
  "cmp_loop [] = Equal"
| "cmp_loop (p # ps) =
     (case cmp_u8 (fst p) (snd p) of Equal \<Rightarrow> cmp_loop ps | other \<Rightarrow> other)"

definition cmp_unsigned :: "u8 list \<Rightarrow> u8 list \<Rightarrow> ordering" where
  "cmp_unsigned a b = cmp_loop (rev (zip a b))"

definition cmp_signed :: "u8 list \<Rightarrow> u8 list \<Rightarrow> ordering" where
  "cmp_signed a b =
     (case (a ! 31 AND 0x80 \<noteq> 0, b ! 31 AND 0x80 \<noteq> 0) of
        (True, False) \<Rightarrow> Less
      | (False, True) \<Rightarrow> Greater
      | _ \<Rightarrow> cmp_unsigned a b)"

definition bool_to_u256 :: "bool \<Rightarrow> u8 list" where
  "bool_to_u256 b = (replicate 32 0)[0 := (if b then 1 else 0)]"

section \<open>The instructions\<close>

definition int256_result :: "u32 \<Rightarrow> u8 list \<Rightarrow> u8 list \<Rightarrow> u8 list option" where
  "int256_result op a b =
     (if op = INT256_ADD then Some (add256 a b)
      else if op = INT256_SUB then Some (sub256 a b)
      else if op = INT256_XOR then Some (xor256 a b)
      else if op = INT256_OR then Some (or256 a b)
      else if op = INT256_AND then Some (and256 a b)
      else if op = INT256_SLL then Some (shl256 a (shift_amount b))
      else if op = INT256_SRL then Some (shr_logical a (shift_amount b))
      else if op = INT256_SRA then Some (shr_arith a (shift_amount b))
      else if op = INT256_SLT then Some (bool_to_u256 (cmp_signed a b = Less))
      else if op = INT256_SLTU then Some (bool_to_u256 (cmp_unsigned a b = Less))
      else if op = INT256_MUL then Some (mul256 a b)
      else None)"

definition handle_int256 :: "cpu \<Rightarrow> u32 \<Rightarrow> unit res \<times> cpu" where
  "handle_int256 c insn =
     (let out = read_reg c (rd insn);
          a_ptr = read_reg c (rs1 insn);
          b_ptr = read_reg c (rs2 insn);
          a = read32 c a_ptr;
          b = read32 c b_ptr;
          op = funct7 insn
      in case int256_result op a b of
           None \<Rightarrow> (Inl (Failed (CustomOp (''unknown INT256 funct7='' @ fmt_dec (unat op) @
             '' at pc=0x'' @ fmt_08x (cpu_pc c)))), c)
         | Some result \<Rightarrow> (Inr (), write32 c out result))"

definition handle_beq256 :: "cpu \<Rightarrow> u32 \<Rightarrow> unit res \<times> cpu" where
  "handle_beq256 c insn =
     (let a_ptr = read_reg c (rs1 insn);
          b_ptr = read_reg c (rs2 insn);
          a = read32 c a_ptr;
          b = read32 c b_ptr;
          target = (if a = b then cpu_pc c + imm_b insn else cpu_pc c + 4)
      in (Inr (), c\<lparr>cpu_pc := target\<rparr>))"

section \<open>Lengths\<close>

lemma length_add_loop [simp]: "length (add_loop cy as bs) = min (length as) (length bs)"
  by (induction cy as bs rule: add_loop.induct) (auto simp: Let_def)

lemma length_sub_loop [simp]: "length (sub_loop bw as bs) = min (length as) (length bs)"
  by (induction bw as bs rule: sub_loop.induct) (auto simp: Let_def)

lemma length_carry_loop [simp]: "length (carry_loop cy r) = length r"
  by (induction r arbitrary: cy) (auto simp: Let_def)

lemma length_mul_row [simp]: "length (mul_row a b i r) = length r"
proof -
  have "length (fold (\<lambda>j r. r[i + j := r ! (i + j) + ucast (a ! i) * ucast (b ! j)]) js r) = length r"
    for js
    by (induction js arbitrary: r) auto
  then show ?thesis
    by (simp add: mul_row_def)
qed

lemma length_mul_columns [simp]: "length (mul_columns a b) = 32"
proof -
  have "length (fold (mul_row a b) is r) = length r" for "is" r
    by (induction "is" arbitrary: r) auto
  then show ?thesis
    by (simp add: mul_columns_def)
qed

lemma length_read32 [simp]: "length (read32 c p) = 32"
  by (simp add: read32_def)

lemma read32_vec: "read32 c p = read_vec (cpu_mem c) p 32"
  by (simp add: read32_def read_vec_def)

section \<open>Sums and differences\<close>

type_synonym u256 = "256 word"

lemma le_val_add_loop:
  "length as = length bs \<Longrightarrow> unat cy \<le> 1 \<Longrightarrow>
   le_val (add_loop cy as bs) = (le_val as + le_val bs + unat cy) mod 256 ^ length as"
proof (induction cy as bs rule: add_loop.induct)
  case (1 cy a as b bs)
  define s :: u16 where "s = ucast a + ucast b + cy"
  have s: "unat s = unat a + unat b + unat cy"
  proof -
    have "unat a + unat b + unat cy < 65536"
      using 1 unat_u8_less [of a] unat_u8_less [of b] by linarith
    then show ?thesis
      by (simp add: s_def unat_word_ariths unat_ucast_u8)
  qed
  then have d: "unat (drop_bit 8 s) = unat s div 256"
    by (simp only: unat_drop_bit) simp
  have c: "unat (ucast s :: u8) = unat s mod 256"
    by (simp add: unsigned_ucast_eq take_bit_eq_mod)
  have "unat (drop_bit 8 s) \<le> 1"
  proof -
    have "unat s < 512"
      using s 1 unat_u8_less [of a] unat_u8_less [of b] by linarith
    then show ?thesis
      by (simp add: d)
  qed
  with 1 have IH: "le_val (add_loop (drop_bit 8 s) as bs) =
      (le_val as + le_val bs + unat s div 256) mod 256 ^ length as"
    by (simp add: s_def [symmetric] d)
  have "(le_val (a # as) + le_val (b # bs) + unat cy) mod 256 ^ length (a # as) =
      (unat s + 256 * (le_val as + le_val bs)) mod (256 * 256 ^ length as)"
    by (simp add: s algebra_simps)
  also have "\<dots> = unat s mod 256 + 256 * ((le_val as + le_val bs + unat s div 256) mod 256 ^ length as)"
    by (rule byte_split_nat)
  finally show ?case
    by (simp add: IH c Let_def flip: s_def)
qed auto

lemma le_val_sub_loop:
  "length as = length bs \<Longrightarrow> unat bw \<le> 1 \<Longrightarrow>
   int (le_val (sub_loop bw as bs)) = (int (le_val as) - int (le_val bs) - int (unat bw)) mod 256 ^ length as"
proof (induction bw as bs rule: sub_loop.induct)
  case (1 bw a as b bs)
  define s :: u16 where "s = ucast a - ucast b - bw"
  define t where "t = int (unat a) - int (unat b) - int (unat bw)"
  have "s = word_of_int t"
    by (simp add: s_def t_def unat_u8_of_nat)
  moreover have t: "- 256 \<le> t" "t < 256"
    unfolding t_def using 1 unat_u8_less [of a] unat_u8_less [of b] by linarith+
  ultimately have s: "sint s = t"
    by (simp add: sint_sbintrunc' signed_take_bit_int_eq_self)
  show ?case
  proof (cases "t < 0")
    case True
    have u: "int (unat (ucast (s + 256) :: u8)) = t + 256"
      
    proof -
      have "s + 256 = word_of_int (t + 256)"
        using \<open>s = word_of_int t\<close> by simp
      then have "(ucast (s + 256) :: u8) = word_of_int (t + 256)"
        by (simp add: ucast_of_int_down del: of_int_add)
      then show ?thesis
        using True t by (simp add: uint_word_of_int del: of_int_add mod_add_self2)
    qed
    have "(int (le_val (a # as)) - int (le_val (b # bs)) - int (unat bw)) mod 256 ^ length (a # as)
      = (t + 256 + 256 * (int (le_val as) - int (le_val bs) - 1)) mod (256 * 256 ^ length as)"
      by (simp add: t_def algebra_simps)
    also have "\<dots> = 256 * ((int (le_val as) - int (le_val bs) - 1) mod 256 ^ length as) + (t + 256)"
      using True t by (intro byte_split_int) simp_all
    finally show ?thesis
      using 1 True u by (simp add: Let_def word_sless_alt s flip: s_def)
  next
    case False
    have u: "int (unat (ucast s :: u8)) = t"
      
    proof -
      have "(ucast s :: u8) = word_of_int t"
        using \<open>s = word_of_int t\<close> by (simp add: ucast_of_int_down del: of_int_add)
      then show ?thesis
        using False t by (simp add: uint_word_of_int)
    qed
    have "(int (le_val (a # as)) - int (le_val (b # bs)) - int (unat bw)) mod 256 ^ length (a # as)
      = (t + 256 * (int (le_val as) - int (le_val bs))) mod (256 * 256 ^ length as)"
      by (simp add: t_def algebra_simps)
    also have "\<dots> = 256 * ((int (le_val as) - int (le_val bs)) mod 256 ^ length as) + t"
      using False t by (intro byte_split_int) simp_all
    finally show ?thesis
      using 1 u by (simp add: Let_def word_sless_alt s False flip: s_def)
  qed
qed auto

section \<open>Products\<close>

lemma nth_mul_row:
  assumes "length r = 32" "i < 32" "k < 32"
  shows "mul_row a b i r ! k = r ! k + (if i \<le> k then ucast (a ! i) * ucast (b ! (k - i)) else 0)"
proof -
  let ?f = "\<lambda>j r. r[i + j := r ! (i + j) + ucast (a ! i) * ucast (b ! j)]"
  have "length (fold ?f [0..<m] r) = 32 \<and> fold ?f [0..<m] r ! k =
      r ! k + (if i \<le> k \<and> k < i + m then ucast (a ! i) * ucast (b ! (k - i)) else 0)"
    if "m \<le> 32 - i" for m
    using that
  proof (induction m)
    case (Suc m)
    then show ?case
      using assms by (auto simp: nth_list_update less_Suc_eq)
  qed (auto simp: assms)
  from this [of "32 - i"] assms show ?thesis
    by (simp add: mul_row_def)
qed

lemma nth_mul_columns:
  assumes "k < 32"
  shows "mul_columns a b ! k = of_nat (\<Sum>i\<le>k. unat (a ! i) * unat (b ! (k - i)))"
proof -
  have "length (fold (mul_row a b) [0..<n] (replicate 32 0)) = 32 \<and>
      fold (mul_row a b) [0..<n] (replicate 32 0) ! k =
        of_nat (\<Sum>i<n. if i \<le> k then unat (a ! i) * unat (b ! (k - i)) else 0)"
    if "n \<le> 32" for n
    using that
  proof (induction n)
    case (Suc n)
    then show ?case
      using assms by (auto simp: nth_mul_row unat_u8_of_nat)
  qed (simp add: assms)
  from this [of 32] have "mul_columns a b ! k =
      of_nat (\<Sum>i<32. if i \<le> k then unat (a ! i) * unat (b ! (k - i)) else 0)"
    by (simp add: mul_columns_def)
  also have "(\<Sum>i<32. if i \<le> k then unat (a ! i) * unat (b ! (k - i)) else 0) =
      (\<Sum>i\<le>k. unat (a ! i) * unat (b ! (k - i)))"
    using assms by (intro sum.mono_neutral_cong_right) auto
  finally show ?thesis .
qed

text \<open>No column overflows its 32 bits.\<close>

lemma column_bound: "k < 32 \<Longrightarrow> (\<Sum>i\<le>k. unat ((a :: u8 list) ! i) * unat ((b :: u8 list) ! (k - i))) \<le> 32 * 65025"
proof -
  assume k: "k < 32"
  have "unat (x :: u8) * unat (y :: u8) \<le> 65025" for x y
    using mult_le_mono [of "unat x" 255 "unat y" 255] unat_u8_less [of x] unat_u8_less [of y] by simp
  then have "(\<Sum>i\<le>k. unat (a ! i) * unat (b ! (k - i))) \<le> (\<Sum>i\<le>k. 65025)"
    by (intro sum_mono) simp
  with k show ?thesis
    by simp
qed

lemma unat_mul_columns:
  "k < 32 \<Longrightarrow> unat (mul_columns a b ! k) = (\<Sum>i\<le>k. unat (a ! i) * unat (b ! (k - i)))"
  using column_bound [of k a b] by (simp add: nth_mul_columns unat_of_nat del: of_nat_sum)

primrec column_val :: "u32 list \<Rightarrow> nat" where
  "column_val [] = 0"
| "column_val (x # r) = unat x + 256 * column_val r"

lemma column_val_sum: "column_val r = (\<Sum>i<length r. unat (r ! i) * 256 ^ i)"
proof (induction r)
  case (Cons x r)
  have "(\<Sum>i<length r. unat (r ! i) * 256 ^ Suc i) = 256 * column_val r"
    by (simp add: Cons sum_distrib_left ac_simps)
  then show ?case
    by (simp add: sum.lessThan_Suc_shift del: sum.lessThan_Suc)
qed simp

lemma le_val_carry_loop:
  "\<forall>x \<in> set r. unat x \<le> 32 * 65025 \<Longrightarrow> unat cy < 2 ^ 24 \<Longrightarrow>
   le_val (carry_loop cy r) = (column_val r + unat cy) mod 256 ^ length r"
proof (induction r arbitrary: cy)
  case (Cons x r)
  define v where "v = x + cy"
  have "unat x + unat cy < 2 ^ 32"
    using Cons.prems by simp
  then have v: "unat v = unat x + unat cy"
    by (simp add: v_def unat_word_ariths)
  have "unat (drop_bit 8 v) < 2 ^ 24"
    using v \<open>unat x + unat cy < 2 ^ 32\<close> by (simp add: unat_drop_bit less_mult_imp_div_less)
  with Cons have IH: "le_val (carry_loop (drop_bit 8 v) r) = (column_val r + unat v div 256) mod 256 ^ length r"
    by (simp add: unat_drop_bit)
  have c: "unat (ucast v :: u8) = unat v mod 256"
    by (simp add: unsigned_ucast_eq take_bit_eq_mod)
  have "(column_val (x # r) + unat cy) mod 256 ^ length (x # r) =
      (unat v + 256 * column_val r) mod (256 * 256 ^ length r)"
    by (simp add: v ac_simps)
  also have "\<dots> = unat v mod 256 + 256 * ((column_val r + unat v div 256) mod 256 ^ length r)"
    by (rule byte_split_nat)
  finally show ?case
    by (simp add: Let_def IH c flip: v_def)
qed simp

lemma column_val_mul_columns:
  assumes "length a = 32" "length b = 32"
  shows "column_val (mul_columns a b) = (\<Sum>i<32. unat (a ! i) * 256 ^ i * le_val (take (32 - i) b))"
proof -
  have "column_val (mul_columns a b) = (\<Sum>k<32. (\<Sum>i\<le>k. unat (a ! i) * unat (b ! (k - i))) * 256 ^ k)"
    by (simp add: column_val_sum unat_mul_columns)
  also have "\<dots> = (\<Sum>k<32. \<Sum>i\<le>k. unat (a ! i) * 256 ^ i * (unat (b ! (k - i)) * 256 ^ (k - i)))"
    by (simp add: sum_distrib_right power_add [symmetric] mult.assoc mult.left_commute)
  also have "\<dots> = (\<Sum>i<32. \<Sum>j<32 - i. unat (a ! i) * 256 ^ i * (unat (b ! j) * 256 ^ j))"
  proof -
    have "Sigma {..<32} (\<lambda>i. {..<32 - i}) = {(i, j). i + j < (32::nat)}"
      by auto
    then show ?thesis
      using sum.triangle_reindex [of "\<lambda>i j. unat (a ! i) * 256 ^ i * (unat (b ! j) * 256 ^ j)" 32]
      by (simp add: sum.Sigma)
  qed
  also have "\<dots> = (\<Sum>i<32. unat (a ! i) * 256 ^ i * le_val (take (32 - i) b))"
    using assms by (simp add: le_val_sum sum_distrib_left)
  finally show ?thesis .
qed

lemma row_mod:
  assumes "i \<le> n" "n = length bs"
  shows "x * 256 ^ i * le_val (take (n - i) bs) mod 256 ^ n = x * 256 ^ i * le_val bs mod 256 ^ n"
proof -
  have "(256::nat) ^ n = 256 ^ i * 256 ^ (n - i)"
    using assms by (simp flip: power_add)
  moreover have "x * le_val (take (n - i) bs) mod 256 ^ (n - i) = x * le_val bs mod 256 ^ (n - i)"
    using assms by (metis diff_le_self le_val_take_mod mod_mult_right_eq)
  ultimately show ?thesis
    by (simp add: mult.assoc mult.left_commute [of x] mult_mod_right [symmetric])
qed

lemma le_val_mul256:
  assumes "length a = 32" "length b = 32"
  shows "le_val (mul256 a b) = le_val a * le_val b mod 256 ^ 32"
proof -
  have "unat x \<le> 32 * 65025" if "x \<in> set (mul_columns a b)" for x
  proof -
    from that obtain k where "k < 32" "x = mul_columns a b ! k"
      by (auto simp: in_set_conv_nth)
    then show ?thesis
      using column_bound [of k a b] by (simp add: unat_mul_columns)
  qed
  then have "le_val (mul256 a b) = column_val (mul_columns a b) mod 256 ^ 32"
    by (simp add: mul256_def le_val_carry_loop)
  also have "\<dots> = (\<Sum>i<32. unat (a ! i) * 256 ^ i * le_val b) mod 256 ^ 32"
    unfolding column_val_mul_columns [OF assms]
    using assms by (intro sum_mod_cong row_mod) simp_all
  also have "\<dots> = le_val a * le_val b mod 256 ^ 32"
    using assms le_val_sum [of a] by (simp only: sum_distrib_right)
  finally show ?thesis .
qed

section \<open>Comparisons\<close>

lemma cmp_loop_append: "cmp_loop (ps @ qs) = (if cmp_loop ps = Equal then cmp_loop qs else cmp_loop ps)"
  by (induction ps) (auto split: ordering.split)

lemma cmp_unsigned_le_val:
  "length a = length b \<Longrightarrow>
   cmp_unsigned a b = (if le_val a < le_val b then Less else if le_val a = le_val b then Equal else Greater)"
proof (induction a b rule: list_induct2)
  case (Cons x xs y ys)
  have "cmp_unsigned (x # xs) (y # ys) =
      (if cmp_unsigned xs ys = Equal then cmp_u8 x y else cmp_unsigned xs ys)"
    by (simp add: cmp_unsigned_def cmp_loop_append split: ordering.split)
  with Cons show ?case
    by (auto simp: cmp_u8_def word_less_nat_alt word_unat_eq_iff byte_order)
qed (simp add: cmp_unsigned_def)

lemma sign_bit: "a AND 0x80 \<noteq> 0 \<longleftrightarrow> bit (a :: u8) 7"
  by (simp add: bit_iff_and_push_bit_not_eq_0)

lemma nth_bits_map:
  "bit (from_le_bytes (map f [0..<32]) :: u256) n \<longleftrightarrow> n < 256 \<and> bit (f (n div 8)) (n mod 8)"
  by (auto simp: bit_from_le_bytes)

lemma bit_u256:
  "length a = 32 \<Longrightarrow> n < 256 \<Longrightarrow> bit (from_le_bytes a :: u256) n \<longleftrightarrow> bit (a ! (n div 8)) (n mod 8)"
  by (auto simp: bit_from_le_bytes)

lemma xor256_word: "length a = 32 \<Longrightarrow> length b = 32 \<Longrightarrow>
   (from_le_bytes (xor256 a b) :: u256) = from_le_bytes a XOR from_le_bytes b"
  by (rule bit_word_eqI) (simp add: xor256_def nth_bits_map bit_xor_iff bit_u256)

lemma and256_word: "length a = 32 \<Longrightarrow> length b = 32 \<Longrightarrow>
   (from_le_bytes (and256 a b) :: u256) = from_le_bytes a AND from_le_bytes b"
  by (rule bit_word_eqI) (simp add: and256_def nth_bits_map bit_and_iff bit_u256)

lemma or256_word: "length a = 32 \<Longrightarrow> length b = 32 \<Longrightarrow>
   (from_le_bytes (or256 a b) :: u256) = from_le_bytes a OR from_le_bytes b"
  by (rule bit_word_eqI) (simp add: or256_def nth_bits_map bit_or_iff bit_u256)

lemma bit_u8_or_shifts:
  "m < 8 \<Longrightarrow> bo < 8 \<Longrightarrow> bit (push_bit bo (hi :: u8) OR drop_bit (8 - bo) lo) m =
     (if bo \<le> m then bit hi (m - bo) \<or> (m < bo \<and> bit lo (m + 8 - bo)) else bit lo (m + 8 - bo))"
  using bit_imp_le_length [of lo "m + 8 - bo"]
  by (auto simp: bit_or_iff bit_push_bit_iff bit_drop_bit_eq algebra_simps)

lemma shl256_word:
  assumes "length a = 32" "amt < 256"
  shows "(from_le_bytes (shl256 a amt) :: u256) = push_bit (unat amt) (from_le_bytes a)"
proof (rule bit_word_eqI)
  fix n
  assume n: "n < LENGTH(256)"
  define m i bo q where "m = n mod 8" "i = n div 8" "bo = unat amt mod 8" "q = unat amt div 8"
  note d = this
  have amt: "unat (amt div 8) = q" "unat (amt mod 8) = bo" "\<not> 256 \<le> amt"
    using assms d by (simp_all add: unat_div unat_mod not_le)
  have mb: "m < 8" "bo < 8"
    using d by simp_all
  have "8 * i + m = n" "8 * q + bo = unat amt"
    using d by simp_all
  note sp = split_bits [OF mb, where i = i and q = q, unfolded this]
  have rhs: "bit (push_bit (unat amt) (from_le_bytes a :: u256)) n \<longleftrightarrow>
      unat amt \<le> n \<and> bit (a ! ((n - unat amt) div 8)) ((n - unat amt) mod 8)"
    using n assms by (auto simp: bit_push_bit_iff bit_u256)
  show "bit (from_le_bytes (shl256 a amt) :: u256) n = bit (push_bit (unat amt) (from_le_bytes a :: u256)) n"
  proof (cases "bo = 0")
    case True
    then show ?thesis
      using n sp by (auto simp: rhs shl256_def Let_def amt nth_bits_map simp flip: d)
  next
    case False
    have "bit (from_le_bytes (shl256 a amt) :: u256) n =
        bit (push_bit bo (if q \<le> i then a ! (i - q) else 0) OR
          drop_bit (8 - bo) (if q < i then a ! (i - q - 1) else 0)) m"
      using n False by (simp add: shl256_def Let_def amt nth_bits_map flip: d)
    also have "\<dots> = bit (push_bit (unat amt) (from_le_bytes a :: u256)) n"
      using mb sp unfolding rhs by (auto simp: bit_u8_or_shifts)
    finally show ?thesis .
  qed
qed

definition shr_fill :: "u8 \<Rightarrow> u8 list \<Rightarrow> u32 \<Rightarrow> u8 list" where
  "shr_fill fill a amt =
     (let byte_off = unat (amt div 8); bit_off = unat (amt mod 8) in
      if bit_off = 0 then map (\<lambda>i. if i < 32 - byte_off then a ! (i + byte_off) else fill) [0..<32]
      else map (\<lambda>i.
        let lo = (if i + byte_off < 32 then a ! (i + byte_off) else fill);
            hi = (if i + byte_off + 1 < 32 then a ! (i + byte_off + 1) else fill)
        in drop_bit bit_off lo OR push_bit (8 - bit_off) hi) [0..<32])"

lemma shr_logical_fill: "amt < 256 \<Longrightarrow> shr_logical a amt = shr_fill 0 a amt"
  by (auto simp: shr_logical_def shr_fill_def Let_def dest: leD)

lemma shr_arith_fill: "amt < 256 \<Longrightarrow> shr_arith a amt = shr_fill (if bit (a ! 31) 7 then 0xff else 0) a amt"
  by (auto simp: shr_arith_def shr_fill_def Let_def sign_bit dest: leD)

lemma bit_u8_or_shifts_right:
  "m < 8 \<Longrightarrow> 0 < bo \<Longrightarrow> bo < 8 \<Longrightarrow> bit (drop_bit bo (lo :: u8) OR push_bit (8 - bo) hi) m =
     (if m + bo < 8 then bit lo (m + bo) else bit hi (m + bo - 8))"
  using bit_imp_le_length [of lo "m + bo"]
  by (auto simp: bit_or_iff bit_push_bit_iff bit_drop_bit_eq algebra_simps)

lemma shr_fill_word:
  assumes "length a = 32" "amt < 256" and fill: "\<And>m. m < 8 \<Longrightarrow> bit fill m = f"
    and n: "n < 256"
  shows "bit (from_le_bytes (shr_fill fill a amt) :: u256) n =
    (if n + unat amt < 256 then bit (from_le_bytes a :: u256) (n + unat amt) else f)"
proof -
  define m i bo q where "m = n mod 8" "i = n div 8" "bo = unat amt mod 8" "q = unat amt div 8"
  note d = this
  have amt: "unat (amt div 8) = q" "unat (amt mod 8) = bo"
    using assms d by (simp_all add: unat_div unat_mod)
  have mb: "m < 8" "bo < 8"
    using d by simp_all
  have "8 * i + m = n" "8 * q + bo = unat amt"
    using d by simp_all
  note sp = split_bits(4,5) [OF mb, where i = i and q = q, unfolded this]
  have rhs: "bit (from_le_bytes a :: u256) (n + unat amt) \<longleftrightarrow>
      bit (a ! ((n + unat amt) div 8)) ((n + unat amt) mod 8)" if "n + unat amt < 256"
    using that assms by (simp add: bit_u256)
  have in_range: "n + unat amt < 256 \<longleftrightarrow> (if m + bo < 8 then i + q < 32 else i + q + 1 < 32)"
    using \<open>8 * i + m = n\<close> \<open>8 * q + bo = unat amt\<close> mb by (auto split: if_splits)
  show ?thesis
  proof (cases "bo = 0")
    case True
    then have "bit (from_le_bytes (shr_fill fill a amt) :: u256) n =
        bit (if i + q < 32 then a ! (i + q) else fill) m"
      using n by (simp add: shr_fill_def Let_def amt nth_bits_map less_diff_conv flip: d)
    with True show ?thesis
      using sp mb rhs in_range by (auto simp: fill)
  next
    case False
    then have "bit (from_le_bytes (shr_fill fill a amt) :: u256) n =
        bit (drop_bit bo (if i + q < 32 then a ! (i + q) else fill) OR
          push_bit (8 - bo) (if i + q + 1 < 32 then a ! (i + q + 1) else fill)) m"
      using n by (simp add: shr_fill_def Let_def amt nth_bits_map flip: d)
    also have "\<dots> = (if n + unat amt < 256 then bit (from_le_bytes a :: u256) (n + unat amt) else f)"
      using mb sp rhs in_range False by (auto simp: bit_u8_or_shifts_right fill)
    finally show ?thesis .
  qed
qed

lemma shr_logical_word:
  assumes "length a = 32" "amt < 256"
  shows "(from_le_bytes (shr_logical a amt) :: u256) = drop_bit (unat amt) (from_le_bytes a)"
proof (rule bit_word_eqI)
  fix n
  assume "n < LENGTH(256)"
  then show "bit (from_le_bytes (shr_logical a amt) :: u256) n = bit (drop_bit (unat amt) (from_le_bytes a :: u256)) n"
    using assms bit_imp_le_length [of "from_le_bytes a :: u256" "n + unat amt"]
    by (auto simp: shr_logical_fill shr_fill_word [of _ _ _ False] bit_drop_bit_eq add.commute)
qed

lemma shr_arith_word:
  assumes "length a = 32" "amt < 256"
  shows "(from_le_bytes (shr_arith a amt) :: u256) = signed_drop_bit (unat amt) (from_le_bytes a)"
proof (rule bit_word_eqI)
  fix n
  assume "n < LENGTH(256)"
  then have n: "n < 256"
    by simp
  have "(0xff :: u8) = - 1"
    by simp
  then have fill: "m < 8 \<Longrightarrow> bit (if bit (a ! 31) 7 then 0xff else 0 :: u8) m = bit (a ! 31) 7" for m
    by (simp only: bit_minus_1_iff split: if_split) simp
  have "bit (signed_drop_bit (unat amt) (from_le_bytes a :: u256)) n =
      bit (from_le_bytes a :: u256) (if 256 - unat amt \<le> n then 255 else n + unat amt)"
  proof -
    have "LENGTH(256) = 256" "256 - Suc 0 = 255"
      by simp_all
    with n show ?thesis
      by (simp only: bit_signed_drop_bit_iff One_nat_def simp_thms if_cancel add.commute)
  qed
  moreover have "bit (from_le_bytes a :: u256) 255 = bit (a ! 31) 7"
    using assms by (simp add: bit_u256)
  moreover have "256 - unat amt \<le> n \<longleftrightarrow> \<not> n + unat amt < 256"
    using n by linarith
  ultimately show "bit (from_le_bytes (shr_arith a amt) :: u256) n = bit (signed_drop_bit (unat amt) (from_le_bytes a :: u256)) n"
    using shr_fill_word [OF assms fill n] by (simp only: shr_arith_fill [OF assms(2)]) (simp split: if_splits)
qed

lemma cmp_signed_sless:
  assumes "length a = 32" "length b = 32"
  shows "cmp_signed a b = Less \<longleftrightarrow> (from_le_bytes a :: u256) <s from_le_bytes b"
proof -
  have s: "sint w = (if bit w 255 then int (unat w) - 2 ^ 256 else int (unat w))" for w :: u256
  proof -
    have "take_bit 256 (uint w) = uint w"
      using uint_bounded [of w] by (intro take_bit_int_eq_self) simp_all
    then show ?thesis
      by (simp add: sint_uint signed_take_bit_eq_take_bit_minus bit_unsigned_iff)
  qed
  have v: "unat (from_le_bytes c :: u256) = le_val c" if "length c = 32" for c
    using le_val_bound [of c] that by (simp add: from_le_bytes_def unat_of_nat)
  have b: "bit (from_le_bytes c :: u256) 255 = bit (c ! 31) 7" if "length c = 32" for c
    using that by (simp add: bit_u256)
  show ?thesis
    using assms le_val_bound [of a] le_val_bound [of b]
    by (auto simp: cmp_signed_def word_sless_alt s v b sign_bit cmp_unsigned_le_val split: bool.split)
qed

section \<open>The 256-bit words\<close>

text \<open>The specification: the operations on words, with shift distances taken modulo 256.\<close>

definition int256_spec :: "u32 \<Rightarrow> u256 \<Rightarrow> u256 \<Rightarrow> u256 option" where
  "int256_spec op x y =
     (if op = INT256_ADD then Some (x + y)
      else if op = INT256_SUB then Some (x - y)
      else if op = INT256_XOR then Some (x XOR y)
      else if op = INT256_OR then Some (x OR y)
      else if op = INT256_AND then Some (x AND y)
      else if op = INT256_SLL then Some (push_bit (unat y mod 256) x)
      else if op = INT256_SRL then Some (drop_bit (unat y mod 256) x)
      else if op = INT256_SRA then Some (signed_drop_bit (unat y mod 256) x)
      else if op = INT256_SLT then Some (if x <s y then 1 else 0)
      else if op = INT256_SLTU then Some (if x < y then 1 else 0)
      else if op = INT256_MUL then Some (x * y)
      else None)"

lemma unat_u256: "length a = 32 \<Longrightarrow> unat (from_le_bytes a :: u256) = le_val a"
  by (simp add: unat_from_le_bytes)

lemma u256_inject:
  assumes "length a = 32" "length b = 32"
  shows "(from_le_bytes a :: u256) = from_le_bytes b \<longleftrightarrow> a = b"
proof
  assume "(from_le_bytes a :: u256) = from_le_bytes b"
  then have "le_val a = le_val b"
    using unat_u256 [OF assms(1)] unat_u256 [OF assms(2)] by simp
  with assms show "a = b"
    by (intro le_val_inj) simp_all
qed simp

lemma add256_word:
  "length a = 32 \<Longrightarrow> length b = 32 \<Longrightarrow> (from_le_bytes (add256 a b) :: u256) = from_le_bytes a + from_le_bytes b"
  by (simp add: word_unat_eq_iff unat_u256 add256_def le_val_add_loop unat_word_ariths)

lemma sub256_word:
  assumes "length a = 32" "length b = 32"
  shows "(from_le_bytes (sub256 a b) :: u256) = from_le_bytes a - from_le_bytes b"
proof -
  have "int (le_val (sub256 a b)) = (int (le_val a) - int (le_val b)) mod 2 ^ 256"
    using assms by (simp add: sub256_def le_val_sub_loop)
  then have "int (le_val (sub256 a b)) = uint (from_le_bytes a - from_le_bytes b :: u256)"
    using assms by (simp add: uint_word_ariths flip: unat_u256)
  then show ?thesis
    using assms by (simp add: sub256_def word_uint_eq_iff flip: unat_u256)
qed

lemma mul256_word:
  assumes "length a = 32" "length b = 32"
  shows "(from_le_bytes (mul256 a b) :: u256) = from_le_bytes a * from_le_bytes b"
proof -
  have "length (mul256 a b) = 32"
    by (simp add: mul256_def)
  then show ?thesis
    using assms by (simp add: word_unat_eq_iff unat_u256 le_val_mul256 unat_word_ariths)
qed

lemma cmp_unsigned_less:
  "length a = 32 \<Longrightarrow> length b = 32 \<Longrightarrow>
   cmp_unsigned a b = Less \<longleftrightarrow> (from_le_bytes a :: u256) < from_le_bytes b"
  by (simp add: cmp_unsigned_le_val word_less_nat_alt unat_u256)

lemma bool_to_u256_word: "(from_le_bytes (bool_to_u256 p) :: u256) = (if p then 1 else 0)"
proof -
  have "bool_to_u256 p = (if p then 1 else 0) # replicate 31 0"
    by (simp add: bool_to_u256_def numeral_eq_Suc)
  then show ?thesis
    by (simp add: from_le_bytes_def)
qed

lemma shift_amount_word:
  assumes "length b = 32"
  shows "shift_amount b < 256" and "unat (shift_amount b) = unat (from_le_bytes b :: u256) mod 256"
proof -
  have u: "unat (shift_amount b) = unat (b ! 0)"
    by (simp add: shift_amount_def unat_ucast_u8)
  then show "shift_amount b < 256"
    by (simp add: word_less_nat_alt)
  obtain x xs where "b = x # xs"
    using assms by (cases b) auto
  then show "unat (shift_amount b) = unat (from_le_bytes b :: u256) mod 256"
    using u assms by (simp add: unat_u256)
qed

lemmas int256_words = add256_word sub256_word xor256_word or256_word and256_word shl256_word
  shr_logical_word shr_arith_word mul256_word cmp_signed_sless cmp_unsigned_less bool_to_u256_word
  shift_amount_word

lemma int256_result_word:
  assumes "length a = 32" "length b = 32"
  shows "map_option from_le_bytes (int256_result op a b) = int256_spec op (from_le_bytes a) (from_le_bytes b)"
  using assms unfolding int256_result_def int256_spec_def by (simp add: int256_words)

lemma length_int256_result:
  assumes "length a = 32" "length b = 32" "int256_result op a b = Some r"
  shows "length r = 32"
  using assms
  by (auto simp: int256_result_def add256_def sub256_def xor256_def or256_def and256_def shl256_def
      shr_logical_def shr_arith_def bool_to_u256_def mul256_def Let_def split: if_splits)

definition operand256 :: "cpu \<Rightarrow> u32 \<Rightarrow> u256" where
  "operand256 c r = from_le_bytes (read_vec (cpu_mem c) (read_reg c r) 32)"

section \<open>Properties\<close>

text \<open>C8. Every 256-bit instruction is the operation on 256-bit words: the operands are the
  32-byte little-endian numbers that \<^verbatim>\<open>rs1\<close> and \<^verbatim>\<open>rs2\<close> point to (before anything is written, so
  the destination may overlap them), and exactly the 32 bytes that \<^verbatim>\<open>rd\<close> points to are replaced by
  the result of the carry, borrow, shift and schoolbook product loops. An operation code above 10 is
  reported with its number and the program counter and changes nothing.\<close>

theorem int256_refines_words:
  "handle_int256 c insn =
     (case int256_spec (funct7 insn) (operand256 c (rs1 insn)) (operand256 c (rs2 insn)) of
        None \<Rightarrow> (Inl (Failed (CustomOp (''unknown INT256 funct7='' @ fmt_dec (unat (funct7 insn)) @
             '' at pc=0x'' @ fmt_08x (cpu_pc c)))), c)
      | Some w \<Rightarrow> (Inr (),
          c\<lparr>cpu_mem := write_slice (cpu_mem c) (read_reg c (rd insn)) (to_le_bytes w)\<rparr>))"
proof -
  let ?a = "read32 c (read_reg c (rs1 insn))" and ?b = "read32 c (read_reg c (rs2 insn))"
  have spec: "int256_spec (funct7 insn) (operand256 c (rs1 insn)) (operand256 c (rs2 insn)) =
      map_option from_le_bytes (int256_result (funct7 insn) ?a ?b)"
    by (simp add: int256_result_word operand256_def read32_vec)
  have "to_le_bytes (from_le_bytes r :: u256) = r" if "int256_result (funct7 insn) ?a ?b = Some r" for r
    using length_int256_result [OF _ _ that] by (simp add: to_from_le_bytes)
  then show ?thesis
    by (simp add: handle_int256_def Let_def spec write32_def write_slice_def split: option.split)
qed

text \<open>C9. The 256-bit branch goes to the branch target exactly when the two 256-bit numbers are
  equal, to the next instruction otherwise, and changes only the program counter.\<close>

theorem beq256_branches_on_equality:
  "handle_beq256 c insn =
     (Inr (), c\<lparr>cpu_pc := (if operand256 c (rs1 insn) = operand256 c (rs2 insn)
        then cpu_pc c + imm_b insn else cpu_pc c + 4)\<rparr>)"
proof -
  have "operand256 c r = operand256 c r' \<longleftrightarrow> read32 c (read_reg c r) = read32 c (read_reg c r')" for r r'
    by (simp add: operand256_def u256_inject read32_vec)
  then show ?thesis
    by (simp add: handle_beq256_def Let_def)
qed

end
