(* ===== verification/Hashes.thy ===== *)
theory Hashes
  imports Cpu Encoding Format
begin

text \<open>
  The hash primitives of \<^verbatim>\<open>precompiles/src/hashes.rs\<close>: the in-place Keccak-f[1600] permutation,
  the exclusive-or of a buffer into another, and the SHA-256 compression, whose arithmetic is the
  third-party \<^verbatim>\<open>sha2::compress256\<close>, a parameter. The permutation is compared with the step
  mappings of the standard, whose rotation offsets and round constants are computed.
\<close>

section \<open>Arrays of words in memory\<close>

text \<open>\<open>n\<close> words of \<open>k\<close> bytes, one after the other.\<close>

definition read_words :: "memory \<Rightarrow> u32 \<Rightarrow> nat \<Rightarrow> nat \<Rightarrow> 'a::len word list" where
  "read_words m ptr k n =
     map (\<lambda>i. from_le_bytes (map (\<lambda>j. read_u8 m (ptr + of_nat (i * k + j))) [0..<k])) [0..<n]"

definition write_words :: "memory \<Rightarrow> u32 \<Rightarrow> nat \<Rightarrow> nat \<Rightarrow> 'a::len word list \<Rightarrow> memory" where
  "write_words m ptr k n ws =
     fold (\<lambda>i m. write_bytes_from m ptr (i * k) (to_le_bytes (ws ! i))) [0..<n] m"

section \<open>Keccak-f\<close>

definition keccak_RC :: "u64 list" where
  "keccak_RC = [
     0x0000000000000001, 0x0000000000008082, 0x800000000000808a, 0x8000000080008000,
     0x000000000000808b, 0x0000000080000001, 0x8000000080008081, 0x8000000000008009,
     0x000000000000008a, 0x0000000000000088, 0x0000000080008009, 0x000000008000000a,
     0x000000008000808b, 0x800000000000008b, 0x8000000000008089, 0x8000000000008003,
     0x8000000000008002, 0x8000000000000080, 0x000000000000800a, 0x800000008000000a,
     0x8000000080008081, 0x8000000000008080, 0x0000000080000001, 0x8000000080008008]"

definition keccak_ROTC :: "nat list" where
  "keccak_ROTC =
     [1, 3, 6, 10, 15, 21, 28, 36, 45, 55, 2, 14, 27, 41, 56, 8, 25, 43, 62, 18, 39, 61, 20, 44]"

definition keccak_PIL :: "nat list" where
  "keccak_PIL =
     [10, 7, 11, 17, 18, 3, 5, 16, 8, 21, 24, 4, 15, 23, 19, 13, 12, 2, 20, 14, 22, 9, 6, 1]"

definition keccak_theta :: "u64 list \<Rightarrow> u64 list" where
  "keccak_theta s =
     (let c = map (\<lambda>x. s ! x XOR s ! (x + 5) XOR s ! (x + 10) XOR s ! (x + 15) XOR s ! (x + 20)) [0..<5];
          d = map (\<lambda>x. c ! ((x + 4) mod 5) XOR word_rotl 1 (c ! ((x + 1) mod 5))) [0..<5]
      in fold (\<lambda>x s. fold (\<lambda>y s. s[x + 5 * y := s ! (x + 5 * y) XOR d ! x]) [0..<5] s) [0..<5] s)"

definition keccak_rho_pi :: "u64 list \<Rightarrow> u64 list" where
  "keccak_rho_pi s =
     snd (fold (\<lambda>i (t, s).
       let j = keccak_PIL ! i; tmp = s ! j in (tmp, s[j := word_rotl (keccak_ROTC ! i) t]))
       [0..<24] (s ! 1, s))"

definition keccak_chi :: "u64 list \<Rightarrow> u64 list" where
  "keccak_chi s =
     fold (\<lambda>y s.
       let row = map (\<lambda>x. s ! (x + 5 * y)) [0..<5] in
       fold (\<lambda>x s. s[x + 5 * y := row ! x XOR (NOT (row ! ((x + 1) mod 5)) AND row ! ((x + 2) mod 5))])
         [0..<5] s) [0..<5] s"

definition keccak_round :: "nat \<Rightarrow> u64 list \<Rightarrow> u64 list" where
  "keccak_round round s =
     (let s = keccak_chi (keccak_rho_pi (keccak_theta s)) in s[0 := s ! 0 XOR keccak_RC ! round])"

definition keccakf1600 :: "u64 list \<Rightarrow> u64 list" where
  "keccakf1600 s = fold keccak_round [0..<24] s"

section \<open>The instructions\<close>

definition do_keccakf :: "cpu \<Rightarrow> u32 \<Rightarrow> unit res \<times> cpu" where
  "do_keccakf c insn =
     (let ptr = read_reg c (rd insn);
          state = keccakf1600 (read_words (cpu_mem c) ptr 8 25)
      in (Inr (), c\<lparr>cpu_mem := write_words (cpu_mem c) ptr 8 25 state\<rparr>))"

definition do_xorin :: "cpu \<Rightarrow> u32 \<Rightarrow> unit res \<times> cpu" where
  "do_xorin c insn =
     (let dst = read_reg c (rd insn);
          src = read_reg c (rs1 insn);
          len = read_reg c (rs2 insn)
      in (Inr (), c\<lparr>cpu_mem := fold (\<lambda>i m.
            let s = read_u8 m (src + of_nat i); d = read_u8 m (dst + of_nat i)
            in write_u8 m (dst + of_nat i) (d XOR s)) [0..<unat len] (cpu_mem c)\<rparr>))"

definition do_sha256_compress :: "(u32 list \<Rightarrow> u8 list \<Rightarrow> u32 list) \<Rightarrow> cpu \<Rightarrow> u32 \<Rightarrow> unit res \<times> cpu" where
  "do_sha256_compress compress256 c insn =
     (let out_ptr = read_reg c (rd insn);
          prev_ptr = read_reg c (rs1 insn);
          block_ptr = read_reg c (rs2 insn);
          state = read_words (cpu_mem c) prev_ptr 4 8;
          block = map (\<lambda>i. read_u8 (cpu_mem c) (block_ptr + of_nat i)) [0..<64];
          state = compress256 state block
      in (Inr (), c\<lparr>cpu_mem := write_words (cpu_mem c) out_ptr 4 8 state\<rparr>))"

section \<open>The standard's step mappings\<close>

type_synonym lanes = "nat \<Rightarrow> nat \<Rightarrow> u64"

definition lanes_of :: "u64 list \<Rightarrow> lanes" where
  "lanes_of s x y = s ! (x + 5 * y)"

definition list_of :: "lanes \<Rightarrow> u64 list" where
  "list_of A = map (\<lambda>i. A (i mod 5) (i div 5)) [0..<25]"

definition std_theta :: "lanes \<Rightarrow> lanes" where
  "std_theta A = (\<lambda>x y.
     let C = (\<lambda>x. A x 0 XOR A x 1 XOR A x 2 XOR A x 3 XOR A x 4)
     in A x y XOR (C ((x + 4) mod 5) XOR word_rotl 1 (C ((x + 1) mod 5))))"

text \<open>The walk over the lanes that assigns the offsets \<open>(t + 1) (t + 2) / 2\<close>.\<close>

primrec rho_walk :: "nat \<Rightarrow> nat \<times> nat" where
  "rho_walk 0 = (1, 0)"
| "rho_walk (Suc t) = (case rho_walk t of (x, y) \<Rightarrow> (y, (2 * x + 3 * y) mod 5))"

definition rho_offset :: "nat \<Rightarrow> nat \<Rightarrow> nat" where
  "rho_offset x y =
     (case filter (\<lambda>t. rho_walk t = (x, y)) [0..<24] of
        [] \<Rightarrow> 0 | t # _ \<Rightarrow> (t + 1) * (t + 2) div 2 mod 64)"

definition std_rho :: "lanes \<Rightarrow> lanes" where
  "std_rho A = (\<lambda>x y. word_rotl (rho_offset x y) (A x y))"

definition std_pi :: "lanes \<Rightarrow> lanes" where
  "std_pi A = (\<lambda>x y. A ((x + 3 * y) mod 5) x)"

definition std_chi :: "lanes \<Rightarrow> lanes" where
  "std_chi A = (\<lambda>x y. A x y XOR (NOT (A ((x + 1) mod 5) y) AND A ((x + 2) mod 5) y))"

text \<open>The linear feedback shift register that generates the round constants.\<close>

fun lfsr_step :: "bool list \<Rightarrow> bool list" where
  "lfsr_step [r0, r1, r2, r3, r4, r5, r6, r7] =
     [r7, r0, r1, r2, r3 \<noteq> r7, r4 \<noteq> r7, r5 \<noteq> r7, r6]"
| "lfsr_step r = r"

primrec lfsr :: "nat \<Rightarrow> bool list" where
  "lfsr 0 = [True, False, False, False, False, False, False, False]"
| "lfsr (Suc t) = lfsr_step (lfsr t)"

definition round_constant :: "nat \<Rightarrow> u64" where
  "round_constant i = fold (\<lambda>j w. if lfsr (j + 7 * i) ! 0 then w OR push_bit (2 ^ j - 1) 1 else w) [0..<7] 0"

definition std_iota :: "nat \<Rightarrow> lanes \<Rightarrow> lanes" where
  "std_iota i A = (\<lambda>x y. if x = 0 \<and> y = 0 then A 0 0 XOR round_constant i else A x y)"

definition keccak_p_round :: "nat \<Rightarrow> u64 list \<Rightarrow> u64 list" where
  "keccak_p_round i s = list_of (std_iota i (std_chi (std_pi (std_rho (std_theta (lanes_of s))))))"

definition keccak_p :: "u64 list \<Rightarrow> u64 list" where
  "keccak_p s = fold keccak_p_round [0..<24] s"

section \<open>The permutation is the standard's\<close>

text \<open>The table of round constants is the register's output.\<close>

definition rc_from :: "bool list \<Rightarrow> u64" where
  "rc_from r = fst (fold (\<lambda>j (w, r). (if r ! 0 then w OR push_bit (2 ^ j - 1) 1 else w, lfsr_step r)) [0..<7] (0, r))"

primrec rcs :: "nat \<Rightarrow> bool list \<Rightarrow> u64 list" where
  "rcs 0 r = []"
| "rcs (Suc n) r = rc_from r # rcs n ((lfsr_step ^^ 7) r)"

lemma lfsr_add: "lfsr (j + n) = (lfsr_step ^^ j) (lfsr n)"
  by (induction j) simp_all

lemma round_constant_rc_from: "round_constant i = rc_from (lfsr (7 * i))"
proof -
  have "fold (\<lambda>j (w, r). (if r ! 0 then w OR push_bit (2 ^ j - 1) 1 else w, lfsr_step r)) [0..<n] (0 :: u64, lfsr (7 * i)) =
      (fold (\<lambda>j w. if lfsr (j + 7 * i) ! 0 then w OR push_bit (2 ^ j - 1) 1 else w) [0..<n] 0,
       lfsr (n + 7 * i))" for n :: nat
    by (induction n) simp_all
  from this [of 7] show ?thesis
    by (simp only: rc_from_def round_constant_def fst_conv)
qed

lemma map_round_constant: "map round_constant [i..<i + n] = rcs n (lfsr (7 * i))"
proof (induction n arbitrary: i)
  case (Suc n)
  have "7 * Suc i = 7 + 7 * i"
    by simp
  then have "lfsr (7 * Suc i) = (lfsr_step ^^ 7) (lfsr (7 * i))"
    by (simp only: lfsr_add)
  with Suc [of "Suc i"] show ?case
    by (simp add: round_constant_rc_from upt_conv_Cons del: upt_Suc)
qed simp

lemma rcs_table: "rcs 24 [True, False, False, False, False, False, False, False] = keccak_RC"
  by code_simp

lemma keccak_RC_lfsr: "map round_constant [0..<24] = keccak_RC"
  using map_round_constant [of 0 24] by (simp add: rcs_table)

text \<open>A state of 25 lanes, lane by lane.\<close>

lemma upt_table: "[0..<5] = [0, 1, 2, 3, 4]"
  "[0..<24] = [0, 1, 2, 3, 4, 5, 6, 7, 8, 9, 10, 11, 12, 13, 14, 15, 16, 17, 18, 19, 20, 21, 22, 23]"
  "[0..<25] = [0, 1, 2, 3, 4, 5, 6, 7, 8, 9, 10, 11, 12, 13, 14, 15, 16, 17, 18, 19, 20, 21, 22, 23, 24]"
  by (simp_all add: upt_rec)

lemma length_25:
  assumes "length s = 25"
  obtains a0 a1 a2 a3 a4 a5 a6 a7 a8 a9 a10 a11 a12 a13 a14 a15 a16 a17 a18 a19 a20 a21 a22 a23 a24
  where "s = [a0, a1, a2, a3, a4, a5, a6, a7, a8, a9, a10, a11, a12, a13, a14, a15, a16, a17, a18,
    a19, a20, a21, a22, a23, a24]"
proof -
  have "s = map ((!) s) [0..<25]"
    using assms by (metis map_nth)
  then show ?thesis
    by (simp only: upt_table list.map) (rule that)
qed

lemma keccak_theta_std: "length s = 25 \<Longrightarrow> keccak_theta s = list_of (std_theta (lanes_of s))"
  by (erule length_25) (simp add: keccak_theta_def list_of_def std_theta_def lanes_of_def upt_table Let_def ac_simps)

lemma keccak_chi_std: "length s = 25 \<Longrightarrow> keccak_chi s = list_of (std_chi (lanes_of s))"
  by (erule length_25) (simp add: keccak_chi_def list_of_def std_chi_def lanes_of_def upt_table Let_def)

lemma rho_walk_table: "map rho_walk [0..<24] =
   [(1, 0), (0, 2), (2, 1), (1, 2), (2, 3), (3, 3), (3, 0), (0, 1), (1, 3), (3, 1), (1, 4), (4, 4),
    (4, 0), (0, 3), (3, 4), (4, 3), (3, 2), (2, 2), (2, 0), (0, 4), (4, 2), (2, 4), (4, 1), (1, 1)]"
  by code_simp

lemma rho_offsets: "map (\<lambda>i. rho_offset (i mod 5) (i div 5)) [0..<25] =
  [0, 1, 62, 28, 27, 36, 44, 6, 55, 20, 3, 10, 43, 25, 39, 41, 45, 15, 21, 8, 18, 2, 61, 56, 14]"
  using rho_walk_table by (simp add: rho_offset_def upt_table)

lemma word_rotl_zero [simp]: "word_rotl 0 (w :: 'a::len word) = w"
  by (rule bit_word_eqI) (simp add: bit_word_rotl_iff)

lemma keccak_rho_pi_std: "length s = 25 \<Longrightarrow> keccak_rho_pi s = list_of (std_pi (std_rho (lanes_of s)))"
  using rho_offsets
  by (elim length_25) (simp add: keccak_rho_pi_def list_of_def std_pi_def std_rho_def lanes_of_def upt_table Let_def
   keccak_PIL_def keccak_ROTC_def)

lemma lanes_of_list_of: "x < 5 \<Longrightarrow> y < 5 \<Longrightarrow> lanes_of (list_of A) x y = A x y"
  by (simp add: lanes_of_def list_of_def)

lemma length_list_of [simp]: "length (list_of A) = 25"
  by (simp add: list_of_def)

lemma list_of_cong: "(\<And>x y. x < 5 \<Longrightarrow> y < 5 \<Longrightarrow> A x y = B x y) \<Longrightarrow> list_of A = list_of B"
  by (simp add: list_of_def)

lemma keccak_round_std:
  assumes "length s = 25" "i < 24"
  shows "keccak_round i s = keccak_p_round i s"
proof -
  have "map round_constant [0..<24] ! i = keccak_RC ! i"
    using keccak_RC_lfsr by simp
  then have rc: "keccak_RC ! i = round_constant i"
    using assms(2) by simp
  have chi: "list_of (std_chi (lanes_of (list_of A))) = list_of (std_chi A)" for A
    by (rule list_of_cong) (simp add: std_chi_def lanes_of_list_of)
  have pi: "list_of (std_pi (std_rho (lanes_of (list_of A)))) = list_of (std_pi (std_rho A))" for A
    by (rule list_of_cong) (simp add: std_pi_def std_rho_def lanes_of_list_of)
  have iota: "(list_of A)[0 := list_of A ! 0 XOR round_constant i] = list_of (std_iota i A)" for A
    by (simp add: list_of_def upt_table std_iota_def)
  show ?thesis
    using assms by (simp add: keccak_round_def Let_def keccak_theta_std keccak_rho_pi_std keccak_chi_std chi pi iota rc
      keccak_p_round_def)
qed

lemma keccakf1600_std:
  assumes "length s = 25"
  shows "keccakf1600 s = keccak_p s"
proof -
  have "fold keccak_round [0..<n] s = fold keccak_p_round [0..<n] s \<and>
      length (fold keccak_p_round [0..<n] s) = 25" if "n \<le> 24" for n
    using that
  proof (induction n)
    case (Suc n)
    then show ?case
      by (simp add: keccak_round_std) (simp add: keccak_p_round_def)
  qed (use assms in simp)
  from this [of 24] show ?thesis
    by (simp add: keccakf1600_def keccak_p_def)
qed

section \<open>The arrays in memory\<close>

lemma nth_concat_uniform:
  "\<forall>ys \<in> set xss. length ys = k \<Longrightarrow> i < length xss \<Longrightarrow> j < k \<Longrightarrow> concat xss ! (i * k + j) = xss ! i ! j"
proof (induction xss arbitrary: i)
  case (Cons ys xss)
  then show ?case
    by (cases i) (auto simp: nth_append algebra_simps)
qed simp

lemma length_concat_uniform: "\<forall>ys \<in> set xss. length ys = k \<Longrightarrow> length (concat xss) = length xss * k"
  by (induction xss) auto

lemma write_words_slice:
  fixes ws :: "'a::len word list"
  assumes "LENGTH('a) div 8 = k"
  shows "write_words m ptr k n ws = write_slice m ptr (concat (map (\<lambda>i. to_le_bytes (ws ! i)) [0..<n]))"
proof (induction n)
  case (Suc n)
  have "length (concat (map (\<lambda>i. to_le_bytes (ws ! i)) [0..<n])) = n * k"
    using length_concat_uniform [of "map (\<lambda>i. to_le_bytes (ws ! i)) [0..<n]" k] assms by auto
  with Suc show ?case
    by (simp add: write_words_def write_slice_def flat.wrs_append)
qed (simp add: write_words_def write_slice_def)

text \<open>Words written are read back.\<close>

lemma read_words_write_slice:
  fixes ws :: "'a::len word list"
  assumes "wf_memory m" "8 * k = LENGTH('a)" "length ws * k \<le> 2 ^ 32"
  shows "read_words (write_slice m ptr (concat (map to_le_bytes ws))) ptr k (length ws) = ws"
proof (rule nth_equalityI)
  fix i
  assume "i < length (read_words (write_slice m ptr (concat (map to_le_bytes ws))) ptr k (length ws) :: 'a word list)"
  then have i: "i < length ws"
    by (simp add: read_words_def)
  let ?bs = "concat (map to_le_bytes ws)"
  have k: "LENGTH('a) div 8 = k"
    using assms(2) by simp
  have len: "length ?bs = length ws * k"
    using length_concat_uniform [of "map to_le_bytes ws" k] k by auto
  have "map (\<lambda>j. read_u8 (write_slice m ptr ?bs) (ptr + of_nat (i * k + j))) [0..<k] = to_le_bytes (ws ! i)"
  proof (rule nth_equalityI)
    fix j
    assume "j < length (map (\<lambda>j. read_u8 (write_slice m ptr ?bs) (ptr + of_nat (i * k + j))) [0..<k])"
    then have j: "j < k"
      by simp
    with i have "i * k + j < length ws * k"
      by (metis add_lessD1 add_strict_left_mono less_le_trans mult_Suc mult_le_mono1 Suc_leI add.commute)
    with assms len i j k show "map (\<lambda>j. read_u8 (write_slice m ptr ?bs) (ptr + of_nat (i * k + j))) [0..<k] ! j = to_le_bytes (ws ! i) ! j"
      using nth_concat_uniform [of "map to_le_bytes ws" k i j]
      by (simp add: mem_laws overlay_def unat_of_nat del: of_nat_add of_nat_mult)
  qed (simp add: k)
  with i assms(2) show "(read_words (write_slice m ptr ?bs) ptr k (length ws) :: 'a word list) ! i = ws ! i"
    by (simp add: read_words_def from_to_le_bytes flip: assms(2))
qed (simp add: read_words_def)

lemma map_nth_upt: "map (\<lambda>i. f (xs ! i)) [0..<length xs] = map f xs"
  by (rule nth_equalityI) simp_all

lemma length_keccak_p [simp]: "length s = 25 \<Longrightarrow> length (keccak_p s) = 25"
proof -
  have "length s = 25 \<Longrightarrow> length (fold keccak_p_round is s) = 25" for "is"
    by (induction "is" arbitrary: s) (auto simp: keccak_p_round_def)
  then show "length s = 25 \<Longrightarrow> length (keccak_p s) = 25"
    by (simp add: keccak_p_def)
qed

lemma length_read_words [simp]: "length (read_words m p k n) = n"
  by (simp add: read_words_def)

lemma write_slice_snoc: "write_slice m a (bs @ [b]) = write_u8 (write_slice m a bs) (a + of_nat (length bs)) b"
  by (simp add: write_slice_def flat.wrs_append)

lemma xorin_loop:
  assumes m: "wf_memory m" and d: "disjoint_ranges dst n src n" and n: "n < 2 ^ 32"
  shows "fold (\<lambda>i m. write_u8 m (dst + of_nat i) (read_u8 m (dst + of_nat i) XOR read_u8 m (src + of_nat i))) [0..<n] m =
    write_slice m dst (map (\<lambda>i. read_u8 m (dst + of_nat i) XOR read_u8 m (src + of_nat i)) [0..<n])"
proof -
  let ?b = "\<lambda>i. read_u8 m (dst + of_nat i) XOR read_u8 m (src + of_nat i)"
  have "fold (\<lambda>i m. write_u8 m (dst + of_nat i) (read_u8 m (dst + of_nat i) XOR read_u8 m (src + of_nat i))) [0..<k] m =
      write_slice m dst (map ?b [0..<k])" if "k \<le> n" for k
    using that
  proof (induction k)
    case (Suc k)
    let ?m = "write_slice m dst (map ?b [0..<k])"
    have "read_u8 ?m (dst + of_nat k) = read_u8 m (dst + of_nat k)"
      using Suc.prems n m by (simp add: mem_laws overlay_def)
    moreover have "k < unat (src + of_nat k - dst)"
      using d Suc.prems by (auto simp: disjoint_ranges_def Suc_le_eq dest: bspec [of _ _ k])
    then have "read_u8 ?m (src + of_nat k) = read_u8 m (src + of_nat k)"
      using Suc.prems n m by (simp add: mem_laws overlay_def)
    ultimately show ?case
      using Suc by (simp add: write_slice_snoc)
  qed (simp add: write_slice_def)
  from this [of n] show ?thesis
    by simp
qed

section \<open>Properties\<close>

text \<open>C10. The Keccak-f instruction replaces the 25 little-endian lanes that \<^verbatim>\<open>rd\<close> points to by
  the 24 rounds of the standard's step mappings on them, and changes nothing else: the in-place loops
  with their rotation, lane-order and round-constant tables compute theta, rho, pi, chi and iota, whose
  offsets and constants come from the lane walk and the feedback register.\<close>

theorem keccakf_is_keccak_p:
  assumes "wf_memory (cpu_mem c)"
  shows "let ptr = read_reg c (rd insn); lanes = read_words (cpu_mem c) ptr 8 25;
      m = write_slice (cpu_mem c) ptr (concat (map to_le_bytes (keccak_p lanes)))
    in do_keccakf c insn = (Inr (), c\<lparr>cpu_mem := m\<rparr>) \<and> read_words m ptr 8 25 = keccak_p lanes"
proof -
  define ptr where "ptr = read_reg c (rd insn)"
  define lanes :: "u64 list" where "lanes = read_words (cpu_mem c) ptr 8 25"
  have 25: "length (keccak_p lanes) = 25"
    by (simp add: lanes_def)
  have "do_keccakf c insn = (Inr (), c\<lparr>cpu_mem := write_slice (cpu_mem c) ptr (concat (map to_le_bytes (keccak_p lanes)))\<rparr>)"
    using map_nth_upt [of to_le_bytes "keccak_p lanes"] 25
    by (simp add: do_keccakf_def Let_def keccakf1600_std write_words_slice lanes_def ptr_def)
  moreover have "read_words (write_slice (cpu_mem c) ptr (concat (map to_le_bytes (keccak_p lanes)))) ptr 8 25 = keccak_p lanes"
    using read_words_write_slice [OF assms, of 8 "keccak_p lanes" ptr] 25 by simp
  ultimately show ?thesis
    by (simp add: Let_def lanes_def ptr_def)
qed

theorem keccakf_is_keccak_p_witness:
  "(read_words (cpu_mem (snd (do_keccakf (example_cpu [] []) 0))) 0 8 25 :: u64 list) = keccak_p (replicate 25 0)"
proof -
  have "wf_memory (cpu_mem (example_cpu [] []))"
    by (simp add: keeps_wf)
  note k = keccakf_is_keccak_p [OF this, where insn = 0]
  have "(read_words (cpu_mem (example_cpu [] [])) 0 8 25 :: u64 list) = replicate 25 0"
  proof -
    have "map (\<lambda>j. 0) [0..<8] = replicate 8 (0 :: u8)"
      by (simp add: map_replicate_const)
    moreover have "cpu_mem (example_cpu [] []) = new_memory"
      by (simp add: example_cpu_def new_cpu_def)
    ultimately show ?thesis
      by (simp add: read_words_def map_replicate_const from_le_bytes_def)
  qed
  with k show ?thesis
    by (simp add: Let_def rd_def)
qed

text \<open>C11. XORIN on ranges that do not meet: each of the \<^verbatim>\<open>rs2\<close> bytes at \<^verbatim>\<open>rd\<close> becomes the
  exclusive or of its old value and the byte at \<^verbatim>\<open>rs1\<close>, though the loop reads both from the memory
  it is writing.\<close>

theorem xorin_disjoint:
  assumes "wf_memory (cpu_mem c)"
    and "disjoint_ranges (read_reg c (rd insn)) (unat (read_reg c (rs2 insn)))
      (read_reg c (rs1 insn)) (unat (read_reg c (rs2 insn)))"
  shows "do_xorin c insn = (Inr (), c\<lparr>cpu_mem := write_slice (cpu_mem c) (read_reg c (rd insn))
    (map2 (XOR) (read_vec (cpu_mem c) (read_reg c (rd insn)) (unat (read_reg c (rs2 insn))))
       (read_vec (cpu_mem c) (read_reg c (rs1 insn)) (unat (read_reg c (rs2 insn)))))\<rparr>)"
proof -
  have z: "map2 (XOR) (map f [0..<n]) (map g [0..<n]) = map (\<lambda>i. f i XOR g i) [0..<n]" for f g :: "nat \<Rightarrow> u8" and n
    by (rule nth_equalityI) simp_all
  have n: "unat (read_reg c (rs2 insn)) < 2 ^ 32"
    by (rule unsigned_less [THEN less_le_trans]) simp
  show ?thesis
    using xorin_loop [OF assms n] by (simp add: do_xorin_def Let_def read_vec_def z)
qed

theorem xorin_disjoint_witness:
  "\<exists>m. do_xorin (example_cpu [(0x100, [1, 2, 3]), (0x1FE, [5, 0, 7])] [(10, 0x100), (11, 0x1FE), (12, 3)])
      (R_type 1 12 11 4 10 0x0b) =
    (Inr (), (example_cpu [(0x100, [1, 2, 3]), (0x1FE, [5, 0, 7])] [(10, 0x100), (11, 0x1FE), (12, 3)])\<lparr>cpu_mem := m\<rparr>)
    \<and> read_vec m 0x100 3 = [4, 2, 4]"
proof -
  let ?c = "example_cpu [(0x100, [1, 2, 3]), (0x1FE, [5, 0, 7])] [(10, 0x100), (11, 0x1FE), (12, 3)]"
  let ?insn = "R_type 1 12 11 4 10 0x0b"
  have r: "read_reg ?c (rd ?insn) = 0x100" "read_reg ?c (rs1 ?insn) = 0x1FE" "read_reg ?c (rs2 ?insn) = 3"
    unfolding example_cpu_reg by code_simp+
  have m: "wf_memory (cpu_mem ?c)"
    by (simp add: keeps_wf)
  have d: "disjoint_ranges (read_reg ?c (rd ?insn)) (unat (read_reg ?c (rs2 ?insn)))
      (read_reg ?c (rs1 ?insn)) (unat (read_reg ?c (rs2 ?insn)))"
    unfolding r disjoint_ranges_def
  proof (rule ballI)
    fix j assume "j \<in> set [0..<unat (3 :: u32)]"
    then consider "j = 0" | "j = 1" | "j = 2"
      by fastforce
    then show "unat (3 :: u32) \<le> unat (0x1FE + of_nat j - (0x100 :: u32))"
      by cases simp_all
  qed
  have v: "map2 (XOR) (read_vec (cpu_mem ?c) 0x100 3) (read_vec (cpu_mem ?c) 0x1FE 3) = [4, 2, 4]"
  proof -
    have u: "[0..<3] = [0, 1, 2 :: nat]"
      by code_simp
    show ?thesis
      unfolding read_vec_def u by (simp add: example_cpu_byte)
  qed
  have "read_vec (write_slice (cpu_mem ?c) 0x100 [4, 2, 4]) 0x100 3 = [4, 2, 4]"
    using read_vec_write_slice [OF m, of "[4, 2, 4]"] by (simp add: numeral_3_eq_3)
  with xorin_disjoint [OF m d] show ?thesis
    unfolding r by (intro exI [of _ "write_slice (cpu_mem ?c) 0x100 [4, 2, 4]"]) (simp add: v)
qed

text \<open>C12. The SHA-256 instruction applies the compression function to the eight little-endian
  words at \<^verbatim>\<open>rs1\<close> and the 64-byte block at \<^verbatim>\<open>rs2\<close>, as they are before anything is written, and stores
  the eight words of the new state at \<^verbatim>\<open>rd\<close>, which may overlap both.\<close>

theorem sha256_compress_stores_state:
  assumes "wf_memory (cpu_mem c)"
    and "\<And>s b. length (compress256 s b) = 8"
  shows "let out = read_reg c (rd insn);
      state = compress256 (read_words (cpu_mem c) (read_reg c (rs1 insn)) 4 8)
        (read_vec (cpu_mem c) (read_reg c (rs2 insn)) 64);
      m = write_slice (cpu_mem c) out (concat (map to_le_bytes state))
    in do_sha256_compress compress256 c insn = (Inr (), c\<lparr>cpu_mem := m\<rparr>) \<and> read_words m out 4 8 = state"
proof -
  define state where "state = compress256 (read_words (cpu_mem c) (read_reg c (rs1 insn)) 4 8)
        (read_vec (cpu_mem c) (read_reg c (rs2 insn)) 64)"
  have 8: "length state = 8"
    by (simp add: state_def assms(2))
  then have "map (\<lambda>i. to_le_bytes (state ! i)) [0..<8] = map to_le_bytes state"
    using map_nth_upt [of to_le_bytes state] by simp
  moreover have "read_words (write_slice (cpu_mem c) p (concat (map to_le_bytes state))) p 4 8 = state" for p
    using read_words_write_slice [OF assms(1), of 4 state p] 8 by simp
  ultimately show ?thesis
    by (simp add: do_sha256_compress_def Let_def write_words_slice flip: state_def read_vec_eq_map)
qed

theorem sha256_compress_stores_state_witness:
  "(read_words (cpu_mem (snd (do_sha256_compress (\<lambda>s b. replicate 8 (ucast (b ! 0) + 5)) (example_cpu [(0, [7])] []) 0)))
     0 4 8 :: u32 list) = replicate 8 12"
proof -
  let ?f = "\<lambda>s b. replicate 8 (ucast ((b :: u8 list) ! 0) + (5 :: u32))"
  let ?c = "example_cpu [(0, [7])] []"
  have m: "wf_memory (cpu_mem ?c)"
    by (simp add: keeps_wf)
  have l: "length (?f s b) = 8" for s b
    by simp
  have r: "read_reg ?c (rd 0) = 0" "read_reg ?c (rs1 0) = 0" "read_reg ?c (rs2 0) = 0"
    by (simp_all add: rd_def rs1_def rs2_def read_reg_def)
  have z: "ucast (read_vec (cpu_mem ?c) 0 64 ! 0) + (5 :: u32) = 12"
    by (simp add: nth_read_vec example_cpu_byte)
  have mem: "x = (Inr (), c\<lparr>cpu_mem := m\<rparr>) \<Longrightarrow> cpu_mem (snd x) = m" for x :: "unit res \<times> cpu" and c m
    by simp
  note state = sha256_compress_stores_state [where ?compress256.0 = ?f and insn = 0, OF m l,
      unfolded Let_def r z]
  show ?thesis
    unfolding mem [OF conjunct1 [OF state]] by (rule conjunct2 [OF state])
qed

end
