(* ===== verification/Number.thy ===== *)
theory Number
  imports Complex_Main Prelude
begin

text \<open>
  The arithmetic modulo a prime that the modular, curve and square-root routines rest on:
  Euclid's lemma, Fermat's little theorem, inverses and Euler's criterion for the two values of
  the Legendre power. Primality is stated so that it evaluates on small numbers.
\<close>

definition prime_num :: "nat \<Rightarrow> bool" where
  "prime_num p \<longleftrightarrow> 1 < p \<and> (\<forall>m \<in> set [2..<p]. \<not> m dvd p)"

lemma prime_num_gt_1: "prime_num p \<Longrightarrow> 1 < p"
  by (simp add: prime_num_def)

lemma prime_num_dvd: "prime_num p \<Longrightarrow> m dvd p \<Longrightarrow> m = 1 \<or> m = p"
proof -
  assume p: "prime_num p" and m: "m dvd p"
  from p m have "m \<le> p" "m \<noteq> 0"
    by (auto simp: prime_num_def dvd_imp_le intro!: Nat.gr0I)
  moreover have "m \<notin> set [2..<p]"
    using p m by (auto simp: prime_num_def)
  ultimately show ?thesis
    by auto
qed

lemma prime_coprime: "prime_num p \<Longrightarrow> \<not> p dvd a \<Longrightarrow> coprime a p"
  using prime_num_dvd [of p "gcd a p"] by (metis coprime_iff_gcd_eq_1 gcd_dvd1 gcd_dvd2)

lemma prime_dvd_mult: "prime_num p \<Longrightarrow> p dvd a * b \<longleftrightarrow> p dvd a \<or> p dvd b"
  using prime_coprime [of p a] by (metis coprime_commute coprime_dvd_mult_right_iff dvd_mult dvd_mult2)

lemma prime_dvd_power: "prime_num p \<Longrightarrow> p dvd a ^ n \<Longrightarrow> p dvd a"
proof (induction n)
  case 0
  then show ?case
    using prime_num_gt_1 [of p] by simp
qed (auto simp: prime_dvd_mult)

section \<open>Fermat's little theorem\<close>

lemma prime_dvd_choose:
  assumes "prime_num p" "0 < k" "k < p"
  shows "p dvd p choose k"
proof -
  have "k * (p choose k) = p * (p - 1 choose (k - 1))"
    using assms(2) by (simp add: times_binomial_minus1_eq)
  then have "p dvd k * (p choose k)"
    by simp
  moreover have "\<not> p dvd k"
    using assms by (simp add: nat_dvd_not_less)
  ultimately show ?thesis
    using assms(1) by (simp add: prime_dvd_mult)
qed

lemma power_prime_add_1:
  assumes "prime_num p"
  shows "(a + 1) ^ p mod p = (a ^ p + 1) mod p"
proof -
  have "(a + 1) ^ p = (\<Sum>k\<le>p. (p choose k) * a ^ k)"
    using binomial_ring [of a 1 p] by simp
  also have "{..p} = insert 0 (insert p {0<..<p})"
    using prime_num_gt_1 [OF assms] by auto
  also have "(\<Sum>k\<in>\<dots>. (p choose k) * a ^ k) = 1 + (a ^ p + (\<Sum>k\<in>{0<..<p}. (p choose k) * a ^ k))"
    using prime_num_gt_1 [OF assms] by simp
  finally have "(a + 1) ^ p = (a ^ p + 1) + (\<Sum>k\<in>{0<..<p}. (p choose k) * a ^ k)"
    by simp
  moreover have "p dvd (\<Sum>k\<in>{0<..<p}. (p choose k) * a ^ k)"
    using prime_dvd_choose [OF assms] by (intro dvd_sum) auto
  ultimately show ?thesis
    by (metis mod_add_right_eq add_0_right dvd_imp_mod_0)
qed

lemma fermat: "prime_num p \<Longrightarrow> a ^ p mod p = a mod p"
proof (induction a)
  case 0
  then show ?case
    using prime_num_gt_1 [of p] by (simp add: power_0_left)
next
  case (Suc a)
  then have "Suc a ^ p mod p = (a ^ p + 1) mod p"
    using power_prime_add_1 [of p a] by simp
  also have "\<dots> = Suc a mod p"
    using Suc by (metis Suc_eq_plus1 mod_add_left_eq)
  finally show ?case .
qed

lemma prime_mult_cancel:
  fixes a b c :: nat
  assumes "prime_num p" "\<not> p dvd a" "a * b mod p = a * c mod p"
  shows "b mod p = c mod p"
proof -
  have "int p dvd int (a * b) - int (a * c)"
    using assms(3) by (metis mod_eq_dvd_iff zmod_int)
  then have "int p dvd int a * (int b - int c)"
    by (simp add: algebra_simps)
  moreover have "coprime (int a) (int p)"
    using prime_coprime [OF assms(1,2)] by simp
  ultimately have "int p dvd int b - int c"
    by (simp add: coprime_dvd_mult_right_iff coprime_commute)
  then show ?thesis
    by (metis mod_eq_dvd_iff of_nat_eq_iff zmod_int)
qed

lemma fermat_unit: "prime_num p \<Longrightarrow> \<not> p dvd a \<Longrightarrow> a ^ (p - 1) mod p = 1"
proof -
  assume p: "prime_num p" and a: "\<not> p dvd a"
  have "a * a ^ (p - 1) mod p = a * 1 mod p"
    using fermat [OF p, of a] prime_num_gt_1 [OF p] by (simp flip: power_Suc)
  from prime_mult_cancel [OF p a this] show ?thesis
    using prime_num_gt_1 [OF p] by simp
qed

section \<open>Square roots of one\<close>

lemma square_one:
  assumes "prime_num p" "a * a mod p = 1"
  shows "a mod p = 1 \<or> a mod p = p - 1"
proof -
  have p: "1 < p"
    by (rule prime_num_gt_1 [OF assms(1)])
  have "int p dvd int (a * a) - 1"
    using assms(2) p by (metis mod_eq_dvd_iff mod_less of_nat_1 zmod_int)
  then have "int p dvd (int a - 1) * (int a + 1)"
    by (simp add: algebra_simps)
  then have "int p dvd int a - 1 \<or> int p dvd int a + 1"
  proof (cases "a = 0")
    case False
    then have "(int a - 1) * (int a + 1) = int ((a - 1) * (a + 1))" "int a - 1 = int (a - 1)" "int a + 1 = int (a + 1)"
      by (simp_all add: of_nat_diff algebra_simps)
    with \<open>int p dvd (int a - 1) * (int a + 1)\<close> show ?thesis
      using prime_dvd_mult [OF assms(1), of "a - 1" "a + 1"] by (simp only: int_dvd_int_iff)
  qed (use assms p in simp)
  then show ?thesis
  proof (elim disjE)
    assume "int p dvd int a - 1"
    then show ?thesis
      using p by (metis mod_eq_dvd_iff mod_less of_nat_1 of_nat_eq_iff zmod_int)
  next
    assume "int p dvd int a + 1"
    then have "int a mod int p = (int p - 1) mod int p"
      by (simp add: mod_eq_dvd_iff algebra_simps)
    also have "\<dots> = int (p - 1)"
      using p by (subst mod_pos_pos_trivial) (simp_all add: of_nat_diff)
    finally show ?thesis
      by (simp flip: zmod_int)
  qed
qed

text \<open>The Legendre power of a number is 0, 1 or \<open>-1\<close>.\<close>

lemma half_prime: "prime_num p \<Longrightarrow> p mod 2 = 1 \<Longrightarrow> 2 * ((p - 1) div 2) = p - 1"
  by presburger

lemma legendre_cases:
  assumes "prime_num p" "p mod 2 = 1"
  shows "p dvd a \<or> a ^ ((p - 1) div 2) mod p = 1 \<or> a ^ ((p - 1) div 2) mod p = p - 1"
proof (cases "p dvd a")
  case False
  have "a ^ ((p - 1) div 2) * a ^ ((p - 1) div 2) mod p = 1"
    using fermat_unit [OF assms(1) False] half_prime [OF assms] by (simp flip: power_add mult_2)
  then show ?thesis
    using square_one [OF assms(1)] by blast
qed simp

section \<open>Power sums and non-residues\<close>

text \<open>The sum of the \<open>k\<close>-th powers of all residues vanishes for \<open>k < p - 1\<close>, so the Legendre power
  cannot be one everywhere and a non-residue exists.\<close>

lemma power_sum_step:
  "Suc k * (\<Sum>z<p. z ^ k) + (\<Sum>j<k. (Suc k choose j) * (\<Sum>z<p. z ^ j)) = (p ^ Suc k :: nat)"
proof -
  have expand: "(z + 1) ^ Suc k = z ^ Suc k + (Suc k * z ^ k + (\<Sum>j<k. (Suc k choose j) * z ^ j))" for z :: nat
  proof -
    have "(z + 1) ^ Suc k = (\<Sum>j<Suc (Suc k). (Suc k choose j) * z ^ j)"
      using binomial_ring [of z 1 "Suc k"]
      by (simp only: lessThan_Suc_atMost power_one mult_1_right of_nat_id)
    also have "\<dots> = (\<Sum>j<k. (Suc k choose j) * z ^ j) + Suc k * z ^ k + z ^ Suc k"
      by (simp only: sum.lessThan_Suc binomial_n_n binomial_Suc_n mult_1)
    finally show ?thesis
      by linarith
  qed
  have "(\<Sum>z<p. z ^ Suc k) + p ^ Suc k = (\<Sum>z<p. (z + 1) ^ Suc k)"
    using sum.lessThan_Suc_shift [of "\<lambda>z. z ^ Suc k" p]
    by (simp only: sum.lessThan_Suc Suc_eq_plus1 [symmetric] power_0_Suc add_0)
  also have "\<dots> = (\<Sum>z<p. z ^ Suc k) + (Suc k * (\<Sum>z<p. z ^ k) + (\<Sum>z<p. \<Sum>j<k. (Suc k choose j) * z ^ j))"
    by (simp only: expand sum.distrib sum_distrib_left)
  also have "(\<Sum>z<p. \<Sum>j<k. (Suc k choose j) * z ^ j) = (\<Sum>j<k. (Suc k choose j) * (\<Sum>z<p. z ^ j))"
    by (subst sum.swap) (simp only: sum_distrib_left)
  finally show ?thesis
    by simp
qed

lemma power_sum_dvd: "prime_num p \<Longrightarrow> k < p - 1 \<Longrightarrow> p dvd (\<Sum>z<p. z ^ k)"
proof (induction k rule: less_induct)
  case (less k)
  have "p dvd (\<Sum>j<k. (Suc k choose j) * (\<Sum>z<p. z ^ j))"
    using less by (intro dvd_sum dvd_mult less.IH) auto
  moreover have "p dvd Suc k * (\<Sum>z<p. z ^ k) + (\<Sum>j<k. (Suc k choose j) * (\<Sum>z<p. z ^ j))"
    unfolding power_sum_step by simp
  ultimately have "p dvd Suc k * (\<Sum>z<p. z ^ k)"
    by (simp only: dvd_add_left_iff)
  moreover have "\<not> p dvd Suc k"
    using less.prems(2) by (auto dest: dvd_imp_le)
  ultimately show ?case
    using less.prems(1) by (simp only: prime_dvd_mult) simp
qed

lemma nonresidue_exists:
  assumes p: "prime_num p" "p mod 2 = 1"
  shows "\<exists>z. 2 \<le> z \<and> z < p \<and> z ^ ((p - 1) div 2) mod p = p - 1"
proof (rule ccontr)
  assume none: "\<not> ?thesis"
  define k where "k = (p - 1) div 2"
  have k: "0 < k" "k < p - 1"
    using prime_num_gt_1 [OF p(1)] p(2) unfolding k_def by presburger+
  have one: "z ^ k mod p = 1" if "z \<in> {0<..<p}" for z
  proof -
    have "\<not> p dvd z"
      using that by (auto dest: dvd_imp_le)
    with legendre_cases [OF p, of z] have "z ^ k mod p = 1 \<or> z ^ k mod p = p - 1"
      unfolding k_def by blast
    moreover have "z ^ k mod p \<noteq> p - 1" if "2 \<le> z"
      using none that \<open>z \<in> {0<..<p}\<close> unfolding k_def by auto
    moreover have "z ^ k mod p = 1" if "\<not> 2 \<le> z"
    proof -
      have "z = 1"
        using that \<open>z \<in> {0<..<p}\<close> by simp
      then show ?thesis
        using prime_num_gt_1 [OF p(1)] by simp
    qed
    ultimately show ?thesis
      by blast
  qed
  have "{..<p} = insert 0 {0<..<p}"
    using prime_num_gt_1 [OF p(1)] by auto
  then have "(\<Sum>z<p. z ^ k) = (\<Sum>z\<in>{0<..<p}. z ^ k)"
    using k(1) by (simp add: power_0_left)
  then have "(\<Sum>z<p. z ^ k) mod p = (\<Sum>z\<in>{0<..<p}. 1) mod p"
    using prime_num_gt_1 [OF p(1)] sum_mod_cong [of "{0<..<p}" "\<lambda>z. z ^ k" p "\<lambda>_. 1"] one by simp
  also have "\<dots> = p - 1"
    using prime_num_gt_1 [OF p(1)] by simp
  finally show False
    using power_sum_dvd [OF p(1) k(2)] prime_num_gt_1 [OF p(1)] by (simp add: dvd_eq_mod_eq_0)
qed

section \<open>Equal residues as divisibility of integer differences\<close>

lemma mod_dvd_diff: "0 < p \<Longrightarrow> int p dvd int (x mod p) - int x"
  by (metis dvd_minus_mod mod_eq_dvd_iff mod_mod_trivial zmod_int)

lemma nat_mod_dvd_diff: "0 < p \<Longrightarrow> int p dvd int (nat (z mod int p)) - z"
  by (simp add: mod_eq_dvd_iff [symmetric])

lemma mod_eqI_dvd: "int p dvd int x - int y \<Longrightarrow> x mod p = y mod p"
  by (metis mod_eq_dvd_iff of_nat_eq_iff zmod_int)

lemma nat_mod_eqI_dvd: "0 < p \<Longrightarrow> int p dvd z - int y \<Longrightarrow> nat (z mod int p) = y mod p"
  by (metis mod_eq_dvd_iff nat_int zmod_int)

end
