(* ===== verification/Bignum.thy ===== *)
theory Bignum
  imports Number "HOL-Library.Signed_Division"
begin

text \<open>
  The big integers of the modular code: a \<^verbatim>\<open>BigUint\<close> is a natural number and a \<^verbatim>\<open>BigInt\<close> an
  integer, with the subtractions and remainders that panic in Rust as panics. The inverse modulo
  \<open>p\<close> of \<^verbatim>\<open>precompiles/src/modular.rs\<close> is the Euclidean algorithm's coefficient.
\<close>

section \<open>Operations\<close>

definition sub_big :: "nat \<Rightarrow> nat \<Rightarrow> nat res" where
  "sub_big a b = (if b \<le> a then Inr (a - b)
     else Inl (Panicked ''Cannot subtract b from a because b is larger than a.''))"

definition rem_big :: "nat \<Rightarrow> nat \<Rightarrow> nat res" where
  "rem_big a p = (if p = 0 then Inl (Panicked ''attempt to divide by zero'') else Inr (a mod p))"

definition div_ceil :: "nat \<Rightarrow> nat \<Rightarrow> nat" where
  "div_ceil a b = (if a mod b = 0 then a div b else a div b + 1)"

text \<open>\<^verbatim>\<open>BigUint::modpow\<close>, used with moduli above zero only.\<close>

definition modpow :: "nat \<Rightarrow> nat \<Rightarrow> nat \<Rightarrow> nat" where
  "modpow x e m = x ^ e mod m"

text \<open>The quotient and remainder of \<^verbatim>\<open>BigInt\<close> round towards zero.\<close>

lemma abs_smod_less: "b \<noteq> 0 \<Longrightarrow> \<bar>a smod b\<bar> < \<bar>b :: int\<bar>"
  by (simp add: signed_modulo_int_def abs_mult sgn_if)

function extended_gcd :: "int \<Rightarrow> int \<Rightarrow> int \<times> int \<times> int" where
  "extended_gcd a b =
     (if b = 0 then (a, 1, 0)
      else case extended_gcd b (a smod b) of (g, x1, y1) \<Rightarrow> (g, y1, x1 - (a sdiv b) * y1))"
  by pat_completeness auto
termination
  by (relation "measure (\<lambda>(a, b). nat \<bar>b\<bar>)") (simp_all add: abs_smod_less)

declare extended_gcd.simps [simp del]

definition mod_inv :: "nat \<Rightarrow> nat \<Rightarrow> nat option res" where
  "mod_inv a p =
     (if a = 0 then Inr None
      else case extended_gcd (int a) (int p) of (g, x, _) \<Rightarrow>
        if g \<noteq> 1 then Inr None
        else if p = 0 then Inl (Panicked ''attempt to divide by zero'')
        else Inr (Some (nat ((x smod int p + int p) smod int p))))"

section \<open>The inverse\<close>

lemma smod_nonneg: "0 \<le> a \<Longrightarrow> 0 \<le> b \<Longrightarrow> a smod b = a mod (b :: int)"
  by (cases "a = 0") (simp_all add: signed_modulo_int_def)

lemma sdiv_nonneg: "0 \<le> a \<Longrightarrow> 0 \<le> b \<Longrightarrow> a sdiv b = a div (b :: int)"
  by (cases "a = 0"; cases "b = 0") (simp_all add: signed_divide_int_def)

text \<open>The extended Euclidean algorithm returns the greatest common divisor and its
  coefficients.\<close>

lemma extended_gcd_bezout:
  "0 \<le> a \<Longrightarrow> 0 \<le> b \<Longrightarrow> extended_gcd a b = (g, x, y) \<Longrightarrow> g = gcd a b \<and> a * x + b * y = g"
proof (induction a b arbitrary: g x y rule: extended_gcd.induct)
  case (1 a b)
  show ?case
  proof (cases "b = 0")
    case True
    then have "extended_gcd a b = (a, 1, 0)"
      by (subst extended_gcd.simps) simp
    with 1 True show ?thesis
      by simp
  next
    case False
    obtain g' x' y' where r: "extended_gcd b (a smod b) = (g', x', y')"
      by (cases "extended_gcd b (a smod b)")
    from 1 False have "g' = gcd b (a mod b) \<and> b * x' + (a mod b) * y' = g'"
      by (intro "1.IH" [OF False _ _ r, unfolded smod_nonneg [OF "1.prems"(1,2)]])
        (simp_all add: smod_nonneg)
    moreover have "g = g'" "x = y'" "y = x' - (a div b) * y'"
      using 1 False r by (auto simp: extended_gcd.simps [of a b] sdiv_nonneg)
    moreover have "a * y' = b * (a div b) * y' + (a mod b) * y'"
      by (metis distrib_right mult_div_mod_eq)
    moreover have "b * (x' - (a div b) * y') = b * x' - b * (a div b) * y'"
      by (simp add: algebra_simps)
    moreover have "gcd a b = gcd b (a mod b)"
      by (rule gcd_red_int)
    ultimately show ?thesis
      by simp
  qed
qed

lemma mod_inv_cases:
  assumes "1 < p"
  shows "if coprime a p then (\<exists>i. mod_inv a p = Inr (Some i) \<and> i < p \<and> a * i mod p = 1)
    else mod_inv a p = Inr None"
proof (cases "a = 0")
  case True
  with assms show ?thesis
    by (simp add: mod_inv_def)
next
  case False
  obtain g x y where e: "extended_gcd (int a) (int p) = (g, x, y)"
    by (cases "extended_gcd (int a) (int p)")
  from extended_gcd_bezout [OF _ _ this] have g: "g = int (gcd a p)" "int a * x + int p * y = g"
    by simp_all
  show ?thesis
  proof (cases "coprime a p")
    case True
    define i where "i = nat (x mod int p)"
    have bound: "0 \<le> x smod int p + int p"
      using abs_smod_less [of "int p" x] assms by simp
    have "(x smod int p + int p) smod int p = x mod int p"
    proof -
      have "(x smod int p + int p) mod int p = x mod int p"
        by (metis mod_add_self2 mod_mult_self4 mult_sdiv_smod_eq)
      with bound show ?thesis
        by (simp add: smod_nonneg)
    qed
    then have "mod_inv a p = Inr (Some i)"
      using False assms True g(1) e by (simp add: mod_inv_def i_def coprime_iff_gcd_eq_1)
    moreover have "i < p"
      using assms by (simp add: i_def nat_less_iff)
    moreover have "a * i mod p = 1"
    proof -
      have ax: "int a * x = 1 - int p * y"
        using g True by (simp add: coprime_iff_gcd_eq_1 eq_diff_eq)
      have "int (a * i) mod int p = int a * x mod int p"
        using assms by (simp add: i_def mod_mult_right_eq)
      also have "\<dots> = (1 - int p * y) mod int p"
        by (simp only: ax)
      also have "\<dots> = 1"
        using assms by (simp add: mod_diff_eq [symmetric])
      finally show ?thesis
        by (metis of_nat_1 of_nat_eq_iff zmod_int)
    qed
    ultimately show ?thesis
      using True by simp
  next
    case nc: False
    with g(1) e False show ?thesis
      by (simp add: mod_inv_def coprime_iff_gcd_eq_1)
  qed
qed

end
