(* ===== verification/Sqrt.thy ===== *)
theory Sqrt
  imports Bignum
begin

text \<open>
  Non-residues and square roots modulo a prime, from \<^verbatim>\<open>precompiles/src/modular.rs\<close>. The random
  bytes of the third-party \<^verbatim>\<open>StdRng\<close> are a parameter: \<open>fill k n\<close> is what the \<open>k\<close>-th call of
  \<^verbatim>\<open>fill\<close> on the freshly seeded generator writes to a buffer of \<open>n\<close> bytes. The root finder is
  proved to succeed on every square, to fail on every other number, and to return roots only.
\<close>

section \<open>Square roots\<close>

text \<open>Rejection sampling. It may never end, depending on the generator.\<close>

partial_function (option) sample_non_qr :: "(nat \<Rightarrow> nat \<Rightarrow> u8 list) \<Rightarrow> nat \<Rightarrow> nat \<Rightarrow> nat option" where
  "sample_non_qr fill modulus k =
     (let val = le_val (rev (fill k (length (to_bytes_le modulus)))) in
      if val \<ge> modulus - 3 then sample_non_qr fill modulus (k + 1)
      else
        let non_qr = val + 2 in
        if modpow non_qr ((modulus - 1) div 2) modulus = modulus - 1 then Some non_qr
        else sample_non_qr fill modulus (k + 1))"

definition find_non_qr_openvm :: "(nat \<Rightarrow> nat \<Rightarrow> u8 list) \<Rightarrow> nat \<Rightarrow> nat res" where
  "find_non_qr_openvm fill modulus =
     (if modulus mod 4 = 3 then Inr (modulus - 1)
      else if modulus mod 8 = 5 then Inr 2
      else bind_res (sub_big modulus 3) (\<lambda>range.
        case sample_non_qr fill modulus 0 of None \<Rightarrow> Inl Diverged | Some non_qr \<Rightarrow> Inr non_qr))"

text \<open>The loop that takes out the factors of two; it does not end on zero.\<close>

partial_function (option) strip_twos :: "nat \<Rightarrow> nat \<Rightarrow> (nat \<times> nat) option" where
  "strip_twos q s = (if q mod 2 = 0 then strip_twos (q div 2) (s + 1) else Some (q, s))"

text \<open>The inner loop counts the squarings that lead to one.\<close>

function squarings :: "nat \<Rightarrow> nat \<Rightarrow> nat \<Rightarrow> nat \<Rightarrow> nat" where
  "squarings modulus m tmp i =
     (if tmp \<noteq> 1 \<and> i < m then squarings modulus m (tmp * tmp mod modulus) (i + 1) else i)"
  by pat_completeness auto
termination
  by (relation "measure (\<lambda>(modulus, m, tmp, i). m - i)") auto

declare squarings.simps [simp del]

lemma squarings_le: "i \<le> m \<Longrightarrow> squarings modulus m tmp i \<le> m"
  by (induction modulus m tmp i rule: squarings.induct) (subst squarings.simps, simp)

function tonelli :: "nat \<Rightarrow> nat \<Rightarrow> nat \<Rightarrow> nat \<Rightarrow> nat \<Rightarrow> nat option" where
  "tonelli modulus m c t r =
     (if t = 0 then Some 0
      else if t = 1 then Some r
      else
        let i = squarings modulus m t 0 in
        if i = m then None
        else
          let b = ((\<lambda>b. b * b mod modulus) ^^ (m - i - 1)) c
          in tonelli modulus i (b * b mod modulus) (((t * b mod modulus) * b) mod modulus)
               (r * b mod modulus))"
  by pat_completeness auto
termination
proof (relation "measure (\<lambda>(modulus, m, c, t, r). m)")
  fix modulus m c t r i b :: nat
  assume "i = squarings modulus m t 0" "i \<noteq> m"
  then show "((modulus, i, b * b mod modulus, ((t * b mod modulus) * b) mod modulus, r * b mod modulus),
      (modulus, m, c, t, r)) \<in> measure (\<lambda>(modulus, m, c, t, r). m)"
    using squarings_le [of 0 m modulus t] by simp
qed simp

declare tonelli.simps [simp del]

definition mod_sqrt_openvm :: "nat \<Rightarrow> nat \<Rightarrow> nat \<Rightarrow> nat option res" where
  "mod_sqrt_openvm x modulus non_qr =
     (if modulus mod 4 = 3 then
        let exponent = (modulus + 1) div 4; ret = modpow x exponent modulus
        in Inr (if ret * ret mod modulus = x mod modulus then Some ret else None)
      else bind_res (sub_big modulus 1) (\<lambda>q0.
        case strip_twos q0 0 of
          None \<Rightarrow> Inl Diverged
        | Some (q, s) \<Rightarrow> Inr (tonelli modulus s (modpow non_qr q modulus) (modpow x q modulus)
            (modpow x ((q + 1) div 2) modulus))))"

text \<open>The root that HintSqrt supplies: of the operand, or else of its product with the
  non-residue, which must then exist.\<close>

definition sqrt_hint :: "nat \<Rightarrow> nat \<Rightarrow> nat \<Rightarrow> (bool \<times> nat) res" where
  "sqrt_hint x p non_qr =
     bind_res (mod_sqrt_openvm x p non_qr) (\<lambda>s_root.
       case s_root of
         Some s \<Rightarrow> Inr (True, s)
       | None \<Rightarrow>
           bind_res (rem_big (x * non_qr) p) (\<lambda>prod.
             bind_res (mod_sqrt_openvm prod p non_qr) (\<lambda>s_root.
               case s_root of
                 None \<Rightarrow> Inl (Panicked ''either x or x*non_qr should be a square'')
               | Some s \<Rightarrow> Inr (False, s))))"

section \<open>The root finder is correct\<close>

lemma strip_twos_total:
  "0 < q \<Longrightarrow> \<exists>q' k. strip_twos q s = Some (q', s + k) \<and> q' mod 2 = 1 \<and> q = q' * 2 ^ k"
proof (induction q arbitrary: s rule: less_induct)
  case (less q)
  show ?case
  proof (cases "q mod 2 = 0")
    case True
    with less.prems have "q div 2 < q" "0 < q div 2"
      by auto
    from less.IH [OF this, of "s + 1"] obtain q' k where
      "strip_twos (q div 2) (s + 1) = Some (q', s + 1 + k)" "q' mod 2 = 1" "q div 2 = q' * 2 ^ k"
      by blast
    with True show ?thesis
      by (intro exI [of _ q'] exI [of _ "Suc k"]) (subst strip_twos.simps, auto)
  next
    case False
    then show ?thesis
      by (intro exI [of _ q] exI [of _ 0]) (subst strip_twos.simps, simp)
  qed
qed

lemma iterated_square:
  fixes b p :: nat
  assumes "b < p"
  shows "((\<lambda>b. b * b mod p) ^^ n) b = b ^ 2 ^ n mod p"
proof (induction n)
  case (Suc n)
  have "b ^ 2 ^ n * b ^ 2 ^ n = b ^ 2 ^ Suc n"
    by (simp only: power_Suc mult_2 power_add)
  then have "b ^ 2 ^ n mod p * (b ^ 2 ^ n mod p) mod p = b ^ 2 ^ Suc n mod p"
    by (simp only: mod_mult_eq)
  with Suc show ?case
    by simp
qed (use assms in simp)

text \<open>The inner loop finds the least exponent.\<close>

lemma squarings_least:
  "tmp < p \<Longrightarrow> i \<le> m \<Longrightarrow> squarings p m tmp i = k \<Longrightarrow>
   i \<le> k \<and> k \<le> m \<and> (k < m \<longrightarrow> tmp ^ 2 ^ (k - i) mod p = 1) \<and>
   (\<forall>j. i \<le> j \<and> j < k \<longrightarrow> tmp ^ 2 ^ (j - i) mod p \<noteq> 1)"
proof (induction p m tmp i rule: squarings.induct)
  case (1 p m tmp i)
  show ?case
  proof (cases "tmp \<noteq> 1 \<and> i < m")
    case False
    then have "squarings p m tmp i = i"
      by (subst squarings.simps) auto
    then have "k = i"
      using 1 by simp
    with False 1 show ?thesis
      by auto
  next
    case True
    then have "squarings p m (tmp * tmp mod p) (i + 1) = k"
      using 1 by (simp add: squarings.simps [of p m tmp i])
    then have IH: "i + 1 \<le> k" "k \<le> m" "k < m \<longrightarrow> (tmp * tmp mod p) ^ 2 ^ (k - (i + 1)) mod p = 1"
      "\<forall>j. i + 1 \<le> j \<and> j < k \<longrightarrow> (tmp * tmp mod p) ^ 2 ^ (j - (i + 1)) mod p \<noteq> 1"
      using "1.IH" [OF True] 1 True by simp_all
    have step: "(tmp * tmp mod p) ^ 2 ^ (j - (i + 1)) mod p = tmp ^ 2 ^ (j - i) mod p" if "i + 1 \<le> j" for j
    proof -
      have "j - i = Suc (j - (i + 1))"
        using that by simp
      then have "tmp ^ 2 ^ (j - i) = (tmp * tmp) ^ 2 ^ (j - (i + 1))"
        by (simp add: power_mult power2_eq_square)
      then show ?thesis
        by (simp add: power_mod)
    qed
    have "tmp ^ 2 ^ (j - i) mod p \<noteq> 1" if "i \<le> j" "j < k" for j
    proof (cases "j = i")
      case True
      then show ?thesis
        using 1 \<open>tmp \<noteq> 1 \<and> i < m\<close> by simp
    next
      case False
      then show ?thesis
        using that IH(4) step [of j] by auto
    qed
    with IH step show ?thesis
      by auto
  qed
qed

text \<open>One round of the outer loop.\<close>

lemma mod_eq_mult:
  fixes a b c d p :: nat
  assumes "a mod p = b mod p" "c mod p = d mod p"
  shows "a * c mod p = b * d mod p"
  using assms by (metis mod_mult_eq)

lemma minus_one_squared: "1 < p \<Longrightarrow> (p - 1) * (p - 1) mod p = (1::nat)"
proof -
  assume "1 < p"
  then have "int ((p - 1) * (p - 1)) = (int p - 1) * (int p - 1)"
    by (simp only: of_nat_mult) (simp add: of_nat_diff)
  also have "\<dots> = 1 + int p * (int p - 2)"
    by (simp add: algebra_simps)
  finally have "int ((p - 1) * (p - 1)) = 1 + int p * (int p - 2)" .
  then have "int ((p - 1) * (p - 1)) mod int p = 1"
    using \<open>1 < p\<close> by simp
  then show ?thesis
    by (metis of_nat_1 of_nat_eq_iff zmod_int)
qed

lemma tonelli_finds_root:
  assumes "prime_num p"
  shows "0 < m \<Longrightarrow> c ^ 2 ^ (m - 1) mod p = p - 1 \<Longrightarrow> t ^ 2 ^ (m - 1) mod p = 1 \<Longrightarrow>
    r * r mod p = x * t mod p \<Longrightarrow> t < p \<Longrightarrow> c < p \<Longrightarrow>
    \<exists>s. tonelli p m c t r = Some s \<and> s * s mod p = x mod p"
proof (induction m arbitrary: c t r rule: less_induct)
  case (less m)
  have p: "1 < p"
    by (rule prime_num_gt_1 [OF assms])
  have "t \<noteq> 0"
  proof
    assume "t = 0"
    with less.prems(3) show False
      by (simp add: power_0_left)
  qed
  show ?case
  proof (cases "t = 1")
    case True
    with less.prems show ?thesis
      by (simp add: tonelli.simps)
  next
    case False
    define i where "i = squarings p m t 0"
    from squarings_least [OF less.prems(5), of 0 m i]
    have i: "i \<le> m" "i < m \<longrightarrow> t ^ 2 ^ i mod p = 1" "\<And>j. j < i \<Longrightarrow> t ^ 2 ^ j mod p \<noteq> 1"
      by (simp_all add: i_def)
    have "i < m"
      using i less.prems(1,3) by (metis One_nat_def Suc_pred le_neq_implies_less lessI)
    have "0 < i"
      using \<open>i < m\<close> i(2) False less.prems(5) by (cases i) auto
    have half: "t ^ 2 ^ (i - 1) mod p = p - 1"
    proof -
      have "t ^ 2 ^ (i - 1) * t ^ 2 ^ (i - 1) = t ^ 2 ^ i"
        using \<open>0 < i\<close> by (cases i) (simp_all add: mult_2 power_add)
      with i(2) \<open>i < m\<close> have "t ^ 2 ^ (i - 1) * t ^ 2 ^ (i - 1) mod p = 1"
        by simp
      from square_one [OF assms this] i(3) [of "i - 1"] \<open>0 < i\<close> show ?thesis
        by simp
    qed
    define b where "b = c ^ 2 ^ (m - i - 1) mod p"
    have b: "((\<lambda>b. b * b mod p) ^^ (m - i - 1)) c = b"
      using less.prems(6) by (simp add: iterated_square b_def)
    have bb: "(b * b) ^ 2 ^ (i - 1) mod p = p - 1"
    proof -
      have "b ^ 2 mod p = (c ^ 2 ^ (m - i - 1)) ^ 2 mod p"
        by (simp add: b_def power_mod)
      then have "(b ^ 2) ^ 2 ^ (i - 1) mod p = ((c ^ 2 ^ (m - i - 1)) ^ 2) ^ 2 ^ (i - 1) mod p"
        by (metis power_mod)
      also have "((c ^ 2 ^ (m - i - 1)) ^ 2) ^ 2 ^ (i - 1) = c ^ (2 ^ (m - i - 1) * 2 * 2 ^ (i - 1))"
        by (simp only: power_mult)
      also have "(2::nat) ^ (m - i - 1) * 2 * 2 ^ (i - 1) = 2 ^ (m - 1)"
      proof -
        have "m - 1 = (m - i - 1) + 1 + (i - 1)"
          using \<open>0 < i\<close> \<open>i < m\<close> by simp
        then show ?thesis
          by (simp only: power_add power_one_right)
      qed
      finally show ?thesis
        using less.prems(2) by (simp add: power2_eq_square)
    qed
    let ?c = "b * b mod p" and ?t = "((t * b mod p) * b) mod p" and ?r = "r * b mod p"
    have t': "?t = t * (b * b) mod p"
      by (simp add: mod_mult_left_eq mult.assoc)
    have "?c ^ 2 ^ (i - 1) mod p = p - 1"
      using bb by (simp add: power_mod)
    moreover have "?t ^ 2 ^ (i - 1) mod p = 1"
    proof -
      have "?t ^ 2 ^ (i - 1) mod p = t ^ 2 ^ (i - 1) * (b * b) ^ 2 ^ (i - 1) mod p"
        by (simp add: t' power_mod power_mult_distrib)
      also have "\<dots> = (p - 1) * (p - 1) mod p"
        using half bb p by (intro mod_eq_mult) simp_all
      finally show ?thesis
        using minus_one_squared [OF p] by simp
    qed
    moreover have "?r * ?r mod p = x * ?t mod p"
    proof -
      have "?r * ?r mod p = (r * r) * (b * b) mod p"
        by (simp add: mod_mult_eq ac_simps)
      also have "\<dots> = (x * t) * (b * b) mod p"
        by (rule mod_eq_mult [OF less.prems(4) refl])
      also have "\<dots> = x * ?t mod p"
        by (simp add: t' mod_mult_right_eq mult.assoc)
      finally show ?thesis .
    qed
    moreover have "?t < p" "?c < p"
      using p by simp_all
    ultimately obtain s where "tonelli p i ?c ?t ?r = Some s" "s * s mod p = x mod p"
      using less.IH [OF \<open>i < m\<close> \<open>0 < i\<close>] by blast
    moreover have "tonelli p m c t r = tonelli p i ?c ?t ?r"
      using False \<open>t \<noteq> 0\<close> \<open>i < m\<close> b by (subst tonelli.simps) (simp add: Let_def flip: i_def)
    ultimately show ?thesis
      by auto
  qed
qed

text \<open>Whatever the operand, a returned number is a root.\<close>

lemma tonelli_sound:
  assumes "prime_num p"
  shows "tonelli p m c t r = Some s \<Longrightarrow> \<not> p dvd c \<Longrightarrow> \<not> p dvd t \<Longrightarrow>
    r * r mod p = x * t mod p \<Longrightarrow> c < p \<Longrightarrow> s * s mod p = x mod p"
proof (induction m arbitrary: c t r rule: less_induct)
  case (less m)
  have "t \<noteq> 0"
    using less.prems(3) by (intro notI) simp
  show ?case
  proof (cases "t = 1")
    case True
    with less.prems show ?thesis
      by (simp add: tonelli.simps)
  next
    case False
    define i where "i = squarings p m t 0"
    define b where "b = c ^ 2 ^ (m - i - 1) mod p"
    have b: "((\<lambda>b. b * b mod p) ^^ (m - i - 1)) c = b"
      using less.prems by (simp add: iterated_square b_def)
    let ?c = "b * b mod p" and ?t = "((t * b mod p) * b) mod p" and ?r = "r * b mod p"
    have e: "tonelli p m c t r = (if i = m then None else tonelli p i ?c ?t ?r)"
      using False \<open>t \<noteq> 0\<close> b by (subst tonelli.simps) (simp add: Let_def flip: i_def)
    with less.prems(1) have "i \<noteq> m" "tonelli p i ?c ?t ?r = Some s"
      by (auto split: if_splits)
    moreover from this have "i < m"
      using squarings_le [of 0 m p t] by (simp add: i_def)
    moreover have nb: "\<not> p dvd b"
      using less.prems(2) prime_dvd_power [OF assms, of c] by (auto simp: b_def dvd_mod_iff)
    have t': "?t = t * (b * b) mod p"
      by (simp add: mod_mult_left_eq mult.assoc)
    have "\<not> p dvd ?c" "\<not> p dvd ?t"
      using nb less.prems(3) assms by (simp_all add: t' dvd_mod_iff prime_dvd_mult)
    moreover have "?r * ?r mod p = x * ?t mod p"
    proof -
      have "?r * ?r mod p = (r * r) * (b * b) mod p"
        by (simp add: mod_mult_eq ac_simps)
      also have "\<dots> = (x * t) * (b * b) mod p"
        by (rule mod_eq_mult [OF less.prems(4) refl])
      also have "\<dots> = x * ?t mod p"
        by (simp add: t' mod_mult_right_eq mult.assoc)
      finally show ?thesis .
    qed
    moreover have "?c < p"
      using prime_num_gt_1 [OF assms] by simp
    ultimately show ?thesis
      using less.IH by blast
  qed
qed


text \<open>The root that is a square root, for every operand modulo a prime.\<close>

lemma odd_mod_4: "p mod 2 = 1 \<Longrightarrow> p mod 4 = 3 \<or> p mod 4 = (1::nat)"
  by presburger

lemma mod_sqrt_openvm_correct:
  assumes p: "prime_num p" "p mod 2 = 1" and z: "z ^ ((p - 1) div 2) mod p = p - 1"
  shows "if p dvd x \<or> x ^ ((p - 1) div 2) mod p = 1
    then \<exists>s. mod_sqrt_openvm x p z = Inr (Some s) \<and> s * s mod p = x mod p
    else mod_sqrt_openvm x p z = Inr None"
proof -
  have p1: "1 < p"
    by (rule prime_num_gt_1 [OF p(1)])
  have no_root: "s * s mod p \<noteq> x mod p" if "\<not> p dvd x" "x ^ ((p - 1) div 2) mod p \<noteq> 1" for s
  proof
    assume s: "s * s mod p = x mod p"
    then have "\<not> p dvd s"
      using that(1) by (metis dvd_mult2 dvd_imp_mod_0 mod_0_imp_dvd)
    have "x ^ ((p - 1) div 2) mod p = (s * s) ^ ((p - 1) div 2) mod p"
      using s by (metis power_mod)
    also have "(s * s) ^ ((p - 1) div 2) = s ^ (2 * ((p - 1) div 2))"
      by (simp only: power_mult power2_eq_square)
    also have "s ^ (2 * ((p - 1) div 2)) mod p = 1"
      by (simp only: half_prime [OF p] fermat_unit [OF p(1) \<open>\<not> p dvd s\<close>])
    finally show False
      using that(2) by simp
  qed
  show ?thesis
  proof (cases "p mod 4 = 3")
    case True
    define ret where "ret = x ^ ((p + 1) div 4) mod p"
    have m: "mod_sqrt_openvm x p z = Inr (if ret * ret mod p = x mod p then Some ret else None)"
      using True by (simp add: mod_sqrt_openvm_def Let_def modpow_def ret_def)
    have "ret * ret mod p = x * x ^ ((p - 1) div 2) mod p"
    proof -
      have "(p + 1) div 4 + (p + 1) div 4 = Suc ((p - 1) div 2)"
        using True by presburger
      then have "x ^ ((p + 1) div 4) * x ^ ((p + 1) div 4) = x * x ^ ((p - 1) div 2)"
        by (simp only: power_add [symmetric] power_Suc)
      then show ?thesis
        by (simp add: ret_def mod_mult_eq)
    qed
    also have "\<dots> = x * (x ^ ((p - 1) div 2) mod p) mod p"
      by (simp add: mod_mult_right_eq)
    finally have r: "ret * ret mod p = x * (x ^ ((p - 1) div 2) mod p) mod p" .
    have "ret * ret mod p = x mod p" if "p dvd x \<or> x ^ ((p - 1) div 2) mod p = 1"
      using that
    proof
      assume "p dvd x"
      then show ?thesis
        using r by simp
    next
      assume "x ^ ((p - 1) div 2) mod p = 1"
      with r show ?thesis
        by simp
    qed
    then show ?thesis
      using m no_root by auto
  next
    case False
    obtain q k where qk: "strip_twos (p - 1) 0 = Some (q, k)" "q mod 2 = 1" "p - 1 = q * 2 ^ k"
      using strip_twos_total [of "p - 1" 0] p1 by auto
    have "0 < k"
      using qk p p1 by (cases k) (simp_all, presburger)
    have half: "q * 2 ^ (k - 1) = (p - 1) div 2"
      using qk(3) \<open>0 < k\<close> by (cases k) simp_all
    define c t r where "c = z ^ q mod p" and "t = x ^ q mod p" and "r = x ^ ((q + 1) div 2) mod p"
    have m: "mod_sqrt_openvm x p z = Inr (tonelli p k c t r)"
      using False p1 qk(1) by (simp add: mod_sqrt_openvm_def sub_big_def modpow_def c_def t_def r_def)
    have legendre: "c ^ 2 ^ (k - 1) mod p = p - 1" "t ^ 2 ^ (k - 1) mod p = x ^ ((p - 1) div 2) mod p"
      using z half by (simp_all add: c_def t_def power_mod flip: power_mult)
    have r: "r * r mod p = x * t mod p"
    proof -
      have "(q + 1) div 2 + (q + 1) div 2 = Suc q"
        using qk(2) by presburger
      then have "x ^ ((q + 1) div 2) * x ^ ((q + 1) div 2) = x * x ^ q"
        by (simp only: power_add [symmetric] power_Suc)
      then show ?thesis
        by (simp only: r_def t_def mod_mult_left_eq mod_mult_right_eq)
    qed
    have bounds: "t < p" "c < p"
      using p1 by (simp_all add: t_def c_def)
    show ?thesis
    proof (cases "p dvd x")
      case True
      moreover have "0 < q"
        using qk(2) by (intro gr0I) simp
      ultimately have "p dvd x ^ q"
        by (meson dvd_power dvd_trans)
      then have "t = 0"
        by (simp add: t_def)
      then show ?thesis
        using True m by (simp add: tonelli.simps)
    next
      case nd: False
      show ?thesis
      proof (cases "x ^ ((p - 1) div 2) mod p = 1")
        case True
        with legendre have "t ^ 2 ^ (k - 1) mod p = 1"
          by simp
        from tonelli_finds_root [OF p(1) \<open>0 < k\<close> legendre(1) this r bounds] True m show ?thesis
          by auto
      next
        case nonres: False
        have "\<not> p dvd c"
        proof
          assume "p dvd c"
          then have "p dvd c ^ 2 ^ (k - 1)"
            by (metis dvd_power dvd_trans pos2 zero_less_power)
          with legendre(1) p1 show False
            by (simp add: dvd_eq_mod_eq_0)
        qed
        moreover have "\<not> p dvd t"
          using nd prime_dvd_power [OF p(1)] by (auto simp: t_def dvd_mod_iff)
        ultimately have "tonelli p k c t r \<noteq> Some s" for s
          using tonelli_sound [OF p(1) _ _ _ r bounds(2)] no_root [OF nd nonres] by blast
        then show ?thesis
          using nd nonres m by (cases "tonelli p k c t r") auto
      qed
    qed
  qed
qed

section \<open>The quadratic character of two\<close>

lemma fact_even_odd: "fact (2 * n) = (\<Prod>j=1..n. 2 * j) * (\<Prod>i<n. 2 * i + 1 :: nat)"
proof (induction n)
  case (Suc n)
  have "fact (2 * Suc n) = (2 * n + 2) * (2 * n + 1) * fact (2 * n :: nat)"
    by (simp add: algebra_simps)
  with Suc show ?case
    by (simp add: algebra_simps)
qed simp

lemma prod_split_half: "(\<Prod>j=1..2 * n. f j) = (\<Prod>j=1..n. f j) * (\<Prod>i<n. f (2 * n - i))" for f :: "nat \<Rightarrow> int"
proof -
  have "{1..2 * n} = {1..n} \<union> {n + 1..2 * n}"
    by auto
  then have "(\<Prod>j=1..2 * n. f j) = (\<Prod>j=1..n. f j) * (\<Prod>j=n + 1..2 * n. f j)"
    by (simp add: prod.union_disjoint)
  also have "(\<Prod>j=n + 1..2 * n. f j) = (\<Prod>i<n. f (2 * n - i))"
    by (rule prod.reindex_bij_witness [of _ "\<lambda>i. 2 * n - i" "\<lambda>j. 2 * n - j"]) auto
  finally show ?thesis .
qed

lemma prime_not_dvd_fact: "prime_num p \<Longrightarrow> n < p \<Longrightarrow> \<not> p dvd fact n"
proof (induction n)
  case (Suc n)
  have "\<not> p dvd Suc n"
    using Suc.prems(2) by (auto dest: dvd_imp_le)
  with Suc show ?case
    by (simp only: fact_Suc of_nat_id prime_dvd_mult) simp
qed (auto simp: prime_num_def)

lemma two_nonresidue:
  assumes p: "prime_num p" and "p mod 8 = 5"
  shows "2 ^ ((p - 1) div 2) mod p = p - 1"
proof -
  define n where "n = (p - 1) div 4"
  obtain k where "p = 5 + 8 * k"
    using assms(2) by (metis mod_mult_div_eq)
  then have n: "p = 4 * n + 1" "n mod 2 = 1" "(p - 1) div 2 = 2 * n"
    unfolding n_def by simp_all
  let ?f = "\<lambda>j. 2 * int j"
  have "int (2 ^ (2 * n) * fact (2 * n)) = (\<Prod>j=1..2 * n. ?f j)"
    by (simp add: fact_prod prod.distrib)
  also have "\<dots> = (\<Prod>j=1..n. ?f j) * (\<Prod>i<n. ?f (2 * n - i))"
    by (rule prod_split_half)
  finally have "int (2 ^ (2 * n) * fact (2 * n)) mod int p =
      (\<Prod>j=1..n. ?f j) * ((\<Prod>i<n. ?f (2 * n - i) mod int p) mod int p) mod int p"
    by (simp add: mod_prod_eq mod_mult_right_eq)
  also have "(\<Prod>i<n. ?f (2 * n - i) mod int p) = (\<Prod>i<n. - int (2 * i + 1) mod int p)"
  proof (rule prod.cong)
    fix i
    assume "i \<in> {..<n}"
    then have "?f (2 * n - i) = - int (2 * i + 1) + int p"
      by (simp add: n(1) of_nat_diff)
    then show "?f (2 * n - i) mod int p = - int (2 * i + 1) mod int p"
      by simp
  qed simp
  also have "(\<Prod>j=1..n. ?f j) * ((\<Prod>i<n. - int (2 * i + 1) mod int p) mod int p) mod int p =
      (\<Prod>j=1..n. ?f j) * (\<Prod>i<n. - int (2 * i + 1)) mod int p"
    by (simp only: mod_prod_eq mod_mult_right_eq)
  also have "(\<Prod>i<n. - int (2 * i + 1)) = - (\<Prod>i<n. int (2 * i + 1))"
  proof -
    have "(- 1 :: int) ^ n = - 1"
      using n(2) by (simp add: neg_one_odd_power odd_iff_mod_2_eq_one)
    moreover have "(\<Prod>i<n. - int (2 * i + 1)) = (\<Prod>i<n. (- 1) * int (2 * i + 1))"
      by simp
    ultimately show ?thesis
      by (simp only: prod.distrib) simp
  qed
  also have "(\<Prod>j=1..n. ?f j) * - (\<Prod>i<n. int (2 * i + 1)) = - int (fact (2 * n))"
    by (simp add: fact_even_odd)
  finally have "int p dvd int (2 ^ (2 * n) * fact (2 * n)) + int (fact (2 * n))"
    by (simp only: mod_eq_dvd_iff diff_minus_eq_add)
  then have "int p dvd int ((2 ^ (2 * n) + 1) * fact (2 * n))"
    by (simp add: algebra_simps)
  then have "p dvd (2 ^ (2 * n) + 1) * fact (2 * n)"
    by (simp only: int_dvd_int_iff)
  moreover have "\<not> p dvd fact (2 * n)"
    using n(1,2) by (intro prime_not_dvd_fact [OF p]) auto
  ultimately have "p dvd 2 ^ (2 * n) + 1"
    using prime_dvd_mult [OF p] by blast
  then have "(2 ^ (2 * n) + 1) mod p = 0"
    by simp
  then show ?thesis
    unfolding n(3) using prime_num_gt_1 [OF p] by (simp add: mod_Suc split: if_splits)
qed

section \<open>The non-residue\<close>

lemma sample_non_qr_tests:
  assumes "sample_non_qr fill p k = Some z"
  shows "modpow z ((p - 1) div 2) p = p - 1 \<and> 2 \<le> z \<and> z < p - 1"
  using assms
proof (rule sample_non_qr.raw_induct [rotated])
  fix sample and fill :: "nat \<Rightarrow> nat \<Rightarrow> u8 list" and p k z
  assume IH: "\<And>fill p k z. sample fill p k = Some z \<Longrightarrow>
      modpow z ((p - 1) div 2) p = p - 1 \<and> 2 \<le> z \<and> z < p - 1"
    and "(let val = le_val (rev (fill k (length (to_bytes_le p)))) in
      if val \<ge> p - 3 then sample fill p (k + 1)
      else let non_qr = val + 2 in
        if modpow non_qr ((p - 1) div 2) p = p - 1 then Some non_qr else sample fill p (k + 1)) = Some z"
  from this(2) IH [of fill p "k + 1" z] show "modpow z ((p - 1) div 2) p = p - 1 \<and> 2 \<le> z \<and> z < p - 1"
    by (auto simp: Let_def split: if_splits)
qed

lemma find_non_qr_openvm_correct:
  assumes p: "prime_num p" "p mod 2 = 1" and z: "find_non_qr_openvm fill p = Inr z"
  shows "z ^ ((p - 1) div 2) mod p = p - 1"
proof (cases "p mod 4 = 3")
  case True
  have "(p - 1) div 2 mod 2 = 1"
    using True by presburger
  then have "(p - 1) ^ ((p - 1) div 2) = (p - 1) * ((p - 1) * (p - 1)) ^ ((p - 1) div 2 div 2)"
    by (metis odd_iff_mod_2_eq_one odd_two_times_div_two_succ power2_eq_square power_mult power_Suc Suc_eq_plus1)
  then have "(p - 1) ^ ((p - 1) div 2) mod p = (p - 1) * (((p - 1) * (p - 1)) ^ ((p - 1) div 2 div 2) mod p) mod p"
    by (simp only: mod_mult_right_eq)
  also have "((p - 1) * (p - 1)) ^ ((p - 1) div 2 div 2) mod p = 1"
    using minus_one_squared [OF prime_num_gt_1 [OF p(1)]] prime_num_gt_1 [OF p(1)]
    by (metis mod_less power_mod power_one)
  finally show ?thesis
    using True z prime_num_gt_1 [OF p(1)] by (simp add: find_non_qr_openvm_def)
next
  case False
  show ?thesis
  proof (cases "p mod 8 = 5")
    case True
    with False z two_nonresidue [OF p(1) True] show ?thesis
      by (simp add: find_non_qr_openvm_def)
  next
    case no5: False
    with False z sample_non_qr_tests [of fill p 0 z] show ?thesis
      by (auto simp: find_non_qr_openvm_def bind_res_Inr_iff modpow_def split: option.splits)
  qed
qed

text \<open>Whether a number is a square, and the Legendre power that decides it.\<close>

definition is_square :: "nat \<Rightarrow> nat \<Rightarrow> bool" where
  "is_square p x \<longleftrightarrow> (\<exists>y \<in> set [0..<p]. y * y mod p = x mod p)"

lemma square_legendre:
  assumes p: "prime_num p" "p mod 2 = 1" and s: "s * s mod p = x mod p"
  shows "p dvd x \<or> x ^ ((p - 1) div 2) mod p = 1"
proof (cases "p dvd x")
  case False
  then have "\<not> p dvd s"
    using s by (metis dvd_mult2 dvd_imp_mod_0 mod_0_imp_dvd)
  have "x ^ ((p - 1) div 2) mod p = (s * s) ^ ((p - 1) div 2) mod p"
    using s by (metis power_mod)
  also have "(s * s) ^ ((p - 1) div 2) = s ^ (2 * ((p - 1) div 2))"
    by (simp only: power_mult power2_eq_square)
  also have "s ^ (2 * ((p - 1) div 2)) mod p = 1"
    by (simp only: half_prime [OF p] fermat_unit [OF p(1) \<open>\<not> p dvd s\<close>])
  finally show ?thesis
    by simp
qed simp

lemma tonelli_bound: "tonelli p m c t r = Some s \<Longrightarrow> r < p \<Longrightarrow> s < p"
proof (induction p m c t r rule: tonelli.induct)
  case (1 p m c t r)
  then show ?case
    by (subst (asm) tonelli.simps) (auto simp: Let_def split: if_splits)
qed

lemma mod_sqrt_openvm_bound:
  "1 < p \<Longrightarrow> mod_sqrt_openvm x p z = Inr (Some s) \<Longrightarrow> s < p"
  by (auto simp: mod_sqrt_openvm_def Let_def modpow_def bind_res_Inr_iff
      intro: tonelli_bound split: if_splits option.splits)

lemma mod_sqrt_openvm_square:
  assumes p: "prime_num p" "p mod 2 = 1" and z: "z ^ ((p - 1) div 2) mod p = p - 1"
  shows "if is_square p x then \<exists>s. mod_sqrt_openvm x p z = Inr (Some s) \<and> s < p \<and> s * s mod p = x mod p
    else mod_sqrt_openvm x p z = Inr None"
proof -
  have bound: "mod_sqrt_openvm x p z = Inr (Some s) \<Longrightarrow> s < p" for s
    using mod_sqrt_openvm_bound prime_num_gt_1 [OF p(1)] by blast
  have sq: "is_square p x" if "s < p" "s * s mod p = x mod p" for s
    using that by (auto simp: is_square_def)
  have leg: "p dvd x \<or> x ^ ((p - 1) div 2) mod p = 1" if "is_square p x"
    using that square_legendre [OF p] by (auto simp: is_square_def)
  show ?thesis
  proof (cases "p dvd x \<or> x ^ ((p - 1) div 2) mod p = 1")
    case True
    then obtain s where s: "mod_sqrt_openvm x p z = Inr (Some s)" "s * s mod p = x mod p"
      using mod_sqrt_openvm_correct [OF p z, of x] by auto
    from s bound [OF s(1)] sq [of s] show ?thesis
      by simp
  next
    case False
    then have "\<not> is_square p x" "mod_sqrt_openvm x p z = Inr None"
      using leg mod_sqrt_openvm_correct [OF p z, of x] by auto
    then show ?thesis
      by simp
  qed
qed

text \<open>If a number is not a square, its product with a non-residue is one.\<close>

lemma nonresidue_times_nonresidue:
  assumes p: "prime_num p" "p mod 2 = 1" and z: "z ^ ((p - 1) div 2) mod p = p - 1"
    and x: "\<not> is_square p x"
  shows "is_square p (x * z mod p)"
proof -
  let ?e = "(p - 1) div 2"
  have "mod_sqrt_openvm x p z = Inr None"
    using mod_sqrt_openvm_square [OF p z, of x] x by simp
  then have nr: "\<not> (p dvd x \<or> x ^ ?e mod p = 1)"
    using mod_sqrt_openvm_correct [OF p z, of x] by auto
  with legendre_cases [OF p, of x] have "x ^ ?e mod p = p - 1"
    by blast
  then have "x ^ ?e * z ^ ?e mod p = (p - 1) * (p - 1) mod p"
    using z prime_num_gt_1 [OF p(1)] by (intro mod_eq_mult) simp_all
  then have "(x * z mod p) ^ ?e mod p = 1"
    using minus_one_squared [OF prime_num_gt_1 [OF p(1)]] by (simp add: power_mod power_mult_distrib)
  with mod_sqrt_openvm_correct [OF p z, of "x * z mod p"]
  obtain s where "mod_sqrt_openvm (x * z mod p) p z = Inr (Some s)"
    by auto
  then show ?thesis
    using mod_sqrt_openvm_square [OF p z, of "x * z mod p"] by (auto split: if_splits)
qed

lemma sqrt_hint_correct:
  assumes p: "prime_num p" "p mod 2 = 1" and z: "z ^ ((p - 1) div 2) mod p = p - 1"
  shows "\<exists>s. sqrt_hint x p z = Inr (is_square p x, s) \<and> s < p \<and>
    s * s mod p = (if is_square p x then x else x * z) mod p"
proof (cases "is_square p x")
  case True
  with mod_sqrt_openvm_square [OF p z, of x] show ?thesis
    by (auto simp: sqrt_hint_def)
next
  case False
  with mod_sqrt_openvm_square [OF p z, of x] have "mod_sqrt_openvm x p z = Inr None"
    by simp
  moreover obtain s where "mod_sqrt_openvm (x * z mod p) p z = Inr (Some s)" "s < p" "s * s mod p = x * z mod p"
    using mod_sqrt_openvm_square [OF p z, of "x * z mod p"] nonresidue_times_nonresidue [OF p z False] by auto
  ultimately show ?thesis
    using False prime_num_gt_1 [OF p(1)] by (simp add: sqrt_hint_def rem_big_def)
qed

section \<open>Property\<close>

text \<open>C16. Modulo an odd prime, the square root routine with the non-residue the search returns
  decides squareness: for a square it returns a reduced root, for any other number \<open>None\<close>, and the
  non-residue itself has no root. It always ends.\<close>

theorem mod_sqrt_decides_squares:
  assumes "prime_num p" and "p mod 2 = 1" and "find_non_qr_openvm fill p = Inr non_qr"
  shows "mod_sqrt_openvm non_qr p non_qr = Inr None \<and>
    (if is_square p x then \<exists>s. mod_sqrt_openvm x p non_qr = Inr (Some s) \<and> s < p \<and> s * s mod p = x mod p
     else mod_sqrt_openvm x p non_qr = Inr None)"
proof -
  note z = find_non_qr_openvm_correct [OF assms]
  have "\<not> is_square p non_qr"
  proof
    assume "is_square p non_qr"
    then have "p dvd non_qr \<or> non_qr ^ ((p - 1) div 2) mod p = 1"
      using square_legendre [OF assms(1,2)] by (auto simp: is_square_def)
    moreover have "0 < (p - 1) div 2"
      using prime_num_gt_1 [OF assms(1)] assms(2) by (cases "p = 2") auto
    ultimately show False
      using z prime_num_gt_1 [OF assms(1)] assms(2)
      by (auto simp: power_0_left dvd_power dest: dvd_trans [OF _ dvd_power])
  qed
  with mod_sqrt_openvm_square [OF assms(1,2) z] show ?thesis
    by auto
qed

lemma prime_7: "prime_num 7"
  by code_simp

theorem mod_sqrt_decides_squares_witness:
  "mod_sqrt_openvm 6 7 6 = Inr None \<and> (\<exists>s. mod_sqrt_openvm 2 7 6 = Inr (Some s) \<and> s < 7 \<and> s * s mod 7 = 2)"
proof -
  have z: "find_non_qr_openvm (\<lambda>_ _. []) 7 = Inr 6"
    by (simp add: find_non_qr_openvm_def)
  have "is_square 7 2"
    by code_simp
  with mod_sqrt_decides_squares [OF prime_7 _ z, of 2] show ?thesis
    by auto
qed

end
