(* ===== verification/Config.thy ===== *)
theory Config
  imports Encoding
begin

text \<open>
  The tables of moduli, curves and pairings of \<^verbatim>\<open>precompiles/src/config.rs\<close>. A \<^verbatim>\<open>BigUint\<close> is a
  natural number; the decimal literals are the source's.
\<close>

record modulus_entry =
  me_name :: string
  me_limb_bytes :: nat
  me_modulus :: nat

record curve_entry =
  ce_name :: string
  ce_coord_bytes :: nat
  ce_modulus :: nat
  ce_a :: nat
  ce_b :: nat

definition default_moduli :: "modulus_entry list" where
  "default_moduli = [
     \<lparr>me_name = ''bn254_fp'', me_limb_bytes = 32,
       me_modulus = 21888242871839275222246405745257275088696311157297823662689037894645226208583\<rparr>,
     \<lparr>me_name = ''bn254_fr'', me_limb_bytes = 32,
       me_modulus = 21888242871839275222246405745257275088548364400416034343698204186575808495617\<rparr>,
     \<lparr>me_name = ''secp256k1_fp'', me_limb_bytes = 32,
       me_modulus = 115792089237316195423570985008687907853269984665640564039457584007908834671663\<rparr>,
     \<lparr>me_name = ''secp256k1_fr'', me_limb_bytes = 32,
       me_modulus = 115792089237316195423570985008687907852837564279074904382605163141518161494337\<rparr>,
     \<lparr>me_name = ''p256_fp'', me_limb_bytes = 32,
       me_modulus = 115792089210356248762697446949407573530086143415290314195533631308867097853951\<rparr>,
     \<lparr>me_name = ''p256_fr'', me_limb_bytes = 32,
       me_modulus = 115792089210356248762697446949407573529996955224135760342422259061068512044369\<rparr>,
     \<lparr>me_name = ''bls12_381_fp'', me_limb_bytes = 48,
       me_modulus = 4002409555221667393417789825735904156556882819939007885332058136124031650490837864442687629129015664037894272559787\<rparr>,
     \<lparr>me_name = ''bls12_381_fr'', me_limb_bytes = 32,
       me_modulus = 52435875175126190479447740508185965837690552500527637822603658699938581184513\<rparr>]"

definition default_curves :: "curve_entry list" where
  "default_curves = [
     \<lparr>ce_name = ''bn254_g1'', ce_coord_bytes = 32,
       ce_modulus = 21888242871839275222246405745257275088696311157297823662689037894645226208583,
       ce_a = 0,
       ce_b = 3\<rparr>,
     \<lparr>ce_name = ''secp256k1'', ce_coord_bytes = 32,
       ce_modulus = 115792089237316195423570985008687907853269984665640564039457584007908834671663,
       ce_a = 0,
       ce_b = 7\<rparr>,
     \<lparr>ce_name = ''p256'', ce_coord_bytes = 32,
       ce_modulus = 115792089210356248762697446949407573530086143415290314195533631308867097853951,
       ce_a = 115792089210356248762697446949407573530086143415290314195533631308867097853948,
       ce_b = 41058363725152142129326129780047268409114441015993725554835256314039467401291\<rparr>,
     \<lparr>ce_name = ''bls12_381_g1'', ce_coord_bytes = 48,
       ce_modulus = 4002409555221667393417789825735904156556882819939007885332058136124031650490837864442687629129015664037894272559787,
       ce_a = 0,
       ce_b = 4\<rparr>]"

definition default_complex :: "modulus_entry list" where
  "default_complex = [
     \<lparr>me_name = ''bn254_fp2'', me_limb_bytes = 32,
       me_modulus = 21888242871839275222246405745257275088696311157297823662689037894645226208583\<rparr>,
     \<lparr>me_name = ''bls12_381_fp2'', me_limb_bytes = 48,
       me_modulus = 4002409555221667393417789825735904156556882819939007885332058136124031650490837864442687629129015664037894272559787\<rparr>]"

definition default_pairings :: "string list" where
  "default_pairings = [''bn254'', ''bls12_381'']"

section \<open>What the tables promise\<close>

text \<open>A modulus is odd, larger than three, and its residues fit the operand width. A curve has
  a modulus like that, reduced coefficients and a non-zero discriminant.\<close>

definition modulus_ok :: "nat \<Rightarrow> nat \<Rightarrow> bool" where
  "modulus_ok p n \<longleftrightarrow> 3 < p \<and> p mod 2 = 1 \<and> p \<le> 256 ^ n \<and> n < 2 ^ 32"

definition entry_ok :: "modulus_entry \<Rightarrow> bool" where
  "entry_ok e \<longleftrightarrow> modulus_ok (me_modulus e) (me_limb_bytes e)"

definition curve_ok :: "curve_entry \<Rightarrow> bool" where
  "curve_ok e \<longleftrightarrow> modulus_ok (ce_modulus e) (ce_coord_bytes e) \<and>
     ce_a e < ce_modulus e \<and> ce_b e < ce_modulus e \<and>
     (4 * ce_a e ^ 3 + 27 * ce_b e ^ 2) mod ce_modulus e \<noteq> 0"

lemma default_moduli_ok: "list_all entry_ok default_moduli"
  by (simp add: default_moduli_def entry_ok_def modulus_ok_def)

lemma default_complex_ok: "list_all entry_ok default_complex"
  by (simp add: default_complex_def entry_ok_def modulus_ok_def)

text \<open>In addition, the extension by a square root of \<open>-1\<close> is a field: the moduli are 3 modulo 4.\<close>

lemma default_complex_3_mod_4: "list_all (\<lambda>e. me_modulus e mod 4 = 3) default_complex"
  by (simp add: default_complex_def)

text \<open>The discriminant of P-256, by its quotient and remainder.\<close>

lemma p256_discriminant:
  "(4 * 115792089210356248762697446949407573530086143415290314195533631308867097853948 ^ 3 + 27 * 41058363725152142129326129780047268409114441015993725554835256314039467401291 ^ 2) mod 115792089210356248762697446949407573530086143415290314195533631308867097853951
    \<noteq> (0 :: nat)" (is "?d mod ?p \<noteq> 0")
proof -
  have d: "?d = 76665531554481589733451106912866963084117386858640348521070896428385330110353 + ?p *
      53631231694796400004490226831964046734239197425242290103510768359181776405055650542990917329722948439520477523100914854255417254822156752492945087860346702"
    unfolding power3_eq_cube power2_eq_square by (simp only: arith_simps)
  have "?d mod ?p = 76665531554481589733451106912866963084117386858640348521070896428385330110353 mod ?p"
    unfolding d by (rule mod_mult_self2)
  also have "\<dots> = 76665531554481589733451106912866963084117386858640348521070896428385330110353"
    by (rule mod_less) (simp only: rel_simps)
  finally show ?thesis
    by (simp only: rel_simps simp_thms)
qed

lemma p256_ok: "curve_ok (default_curves ! 2)"
proof -
  have "default_curves ! 2 = \<lparr>ce_name = ''p256'', ce_coord_bytes = 32, ce_modulus = 115792089210356248762697446949407573530086143415290314195533631308867097853951,
      ce_a = 115792089210356248762697446949407573530086143415290314195533631308867097853948, ce_b = 41058363725152142129326129780047268409114441015993725554835256314039467401291\<rparr>"
    by (simp add: default_curves_def)
  then show ?thesis
    unfolding curve_ok_def by (simp only: curve_entry.select_convs p256_discriminant) (simp add: modulus_ok_def)
qed

lemma default_curves_ok: "list_all curve_ok default_curves"
proof -
  have "curve_ok (default_curves ! 0)" "curve_ok (default_curves ! 1)" "curve_ok (default_curves ! 3)"
    by (simp_all add: default_curves_def curve_ok_def modulus_ok_def)
  moreover have "default_curves = map ((!) default_curves) [0, 1, 2, 3]"
    by (simp add: default_curves_def)
  ultimately show ?thesis
    using p256_ok by (metis (no_types, lifting) list.pred_inject list.simps(8,9))
qed

lemma entry_ok_nth: "list_all entry_ok es \<Longrightarrow> i < length es \<Longrightarrow> entry_ok (es ! i)"
  by (simp add: list_all_length)

end
