(* ===== verification/Io.thy ===== *)
theory Io
  imports Config
begin

text \<open>
  The host side of the guest's input and output, \<^verbatim>\<open>IoState\<close> of \<^verbatim>\<open>precompiles/src/lib.rs\<close>, and
  the state of the precompile handler that holds it with the configuration tables. A \<^verbatim>\<open>VecDeque\<close> is
  a list, popped at its head.
\<close>

section \<open>State\<close>

record io_state =
  input_streams :: "u8 list list"
  hint_stream :: "u8 list"
  io_output :: "u8 list"

definition with_input :: "u8 list \<Rightarrow> io_state" where
  "with_input bytes = \<lparr>input_streams = [bytes], hint_stream = [], io_output = []\<rparr>"

definition with_input_streams :: "u8 list list \<Rightarrow> io_state" where
  "with_input_streams streams = \<lparr>input_streams = streams, hint_stream = [], io_output = []\<rparr>"

record precompile_handler =
  io :: io_state
  moduli :: "modulus_entry list"
  curves :: "curve_entry list"
  complex :: "modulus_entry list"
  pairings :: "string list"

definition new_handler :: "u8 list \<Rightarrow> precompile_handler" where
  "new_handler input = \<lparr>io = with_input input, moduli = default_moduli, curves = default_curves,
     complex = default_complex, pairings = default_pairings\<rparr>"

section \<open>Operations\<close>

definition pad_len :: "nat \<Rightarrow> nat" where
  "pad_len k = (if k mod 4 = 0 then 0 else 4 - k mod 4)"

lemma pad_step: "0 < k mod 4 \<Longrightarrow> pad_len k = Suc (pad_len (Suc k))"
  using mod_less_divisor [of 4 k] by (auto simp: pad_len_def mod_Suc)

lemma pad_len_add_4 [simp]: "pad_len (4 + k) = pad_len k"
  by (simp add: pad_len_def)

lemma pad_len_less: "pad_len k < 4"
  by (simp add: pad_len_def)

lemma pad_words: "4 * ((n + 3) div 4) = n + pad_len n"
proof -
  obtain q r where "n = r + 4 * q" "r < 4"
    using mod_mult_div_eq [of n 4] mod_less_divisor [of 4 n] by (metis zero_less_numeral)
  moreover from this have "r \<in> {0, 1, 2, 3}"
    by auto
  ultimately show ?thesis
    by (auto simp: pad_len_def)
qed

text \<open>The loop that pads the stream with zeroes to a multiple of four bytes.\<close>

function pad4 :: "u8 list \<Rightarrow> u8 list" where
  "pad4 s = (if length s mod 4 \<noteq> 0 then pad4 (s @ [0]) else s)"
  by pat_completeness auto
termination
  by (relation "measure (\<lambda>s. pad_len (length s))") (simp_all add: pad_step)

declare pad4.simps [simp del]

definition hint_input :: "io_state \<Rightarrow> string + io_state" where
  "hint_input i =
     (case input_streams i of
        [] \<Rightarrow> Inl ''EndOfInputStream''
      | entry # streams \<Rightarrow>
          Inr (i\<lparr>input_streams := streams,
                 hint_stream := pad4 (to_le_bytes (of_nat (length entry) :: u32) @ entry)\<rparr>))"

primrec read_hint_bytes :: "nat \<Rightarrow> io_state \<Rightarrow> u8 list \<times> io_state" where
  "read_hint_bytes 0 i = ([], i)"
| "read_hint_bytes (Suc n) i =
     (case hint_stream i of
        [] \<Rightarrow> (case read_hint_bytes n i of (v, i) \<Rightarrow> (0 # v, i))
      | b # bs \<Rightarrow> (case read_hint_bytes n (i\<lparr>hint_stream := bs\<rparr>) of (v, i) \<Rightarrow> (b # v, i)))"

definition write_output :: "io_state \<Rightarrow> nat \<Rightarrow> u8 list \<Rightarrow> io_state" where
  "write_output i offset bytes =
     (let end = offset + length bytes;
          out = (if length (io_output i) < end then resize_zero end (io_output i) else io_output i)
      in i\<lparr>io_output := take offset out @ bytes @ drop end out\<rparr>)"

definition replace_hint_stream :: "precompile_handler \<Rightarrow> u8 list \<Rightarrow> precompile_handler" where
  "replace_hint_stream h bytes = h\<lparr>io := (io h)\<lparr>hint_stream := bytes\<rparr>\<rparr>"

section \<open>Lemmas\<close>

lemma pad4_eq: "pad4 s = s @ replicate (pad_len (length s)) 0"
proof (induction s rule: pad4.induct)
  case (1 s)
  show ?case
  proof (cases "length s mod 4 = 0")
    case False
    with 1 show ?thesis
      by (subst pad4.simps) (simp add: pad_step replicate_app_Cons_same)
  qed (simp add: pad4.simps pad_len_def)
qed

lemma read_hint_bytes_eq:
  "read_hint_bytes n i = (resize_zero n (hint_stream i), i\<lparr>hint_stream := drop n (hint_stream i)\<rparr>)"
proof (induction n arbitrary: i)
  case (Suc n)
  show ?case
    by (cases "hint_stream i") (simp_all add: Suc resize_zero_def)
qed (simp add: resize_zero_def)

lemma resize_zero_append: "length xs = n \<Longrightarrow> resize_zero n (xs @ ys) = xs"
  by (simp add: resize_zero_def)

section \<open>Properties\<close>

text \<open>C13. Input reaches the guest: after a HintInput that finds an entry shorter than \<open>2 ^ 32\<close>
  bytes, four bytes of the hint stream give the entry's length, then the words that hold it give the
  entry itself followed by at most three zero bytes, and the stream is empty after that. Whatever was
  left in the stream before is gone.\<close>

theorem hint_input_roundtrip:
  assumes "input_streams i = entry # rest" and "length entry < 2 ^ 32"
  shows "\<exists>i1. hint_input i = Inr i1 \<and> input_streams i1 = rest \<and>
    (let (len, i2) = read_hint_bytes 4 i1;
         (payload, i3) = read_hint_bytes (4 * ((length entry + 3) div 4)) i2
     in unat (from_le_bytes len :: u32) = length entry \<and>
        take (length entry) payload = entry \<and> set (drop (length entry) payload) \<subseteq> {0} \<and>
        length payload < length entry + 4 \<and> hint_stream i3 = [] \<and> io_output i3 = io_output i)"
proof -
  let ?len = "to_le_bytes (of_nat (length entry) :: u32)" and ?pad = "pad_len (length entry)"
  have pad: "pad4 (?len @ entry) = ?len @ entry @ replicate ?pad 0"
    by (simp add: pad4_eq)
  have words: "4 * ((length entry + 3) div 4) = length entry + ?pad"
    by (rule pad_words)
  have "?pad < 4"
    by (rule pad_len_less)
  moreover have "unat (from_le_bytes ?len :: u32) = length entry"
    using assms(2) by (simp add: from_to_le_bytes unat_of_nat)
  ultimately show ?thesis
    using assms(1) resize_zero_same [of "entry @ replicate ?pad (0 :: u8)"]
    by (simp add: hint_input_def pad read_hint_bytes_eq resize_zero_append words set_replicate_conv_if)
qed

theorem hint_input_roundtrip_witness:
  "\<exists>i1. hint_input (with_input [9, 8, 7, 6, 5]) = Inr i1 \<and> input_streams i1 = [] \<and>
    (let (len, i2) = read_hint_bytes 4 i1;
         (payload, i3) = read_hint_bytes (4 * ((length [9, 8, 7, 6, 5 :: u8] + 3) div 4)) i2
     in unat (from_le_bytes len :: u32) = length [9, 8, 7, 6, 5 :: u8] \<and>
        take (length [9, 8, 7, 6, 5 :: u8]) payload = [9, 8, 7, 6, 5] \<and>
        set (drop (length [9, 8, 7, 6, 5 :: u8]) payload) \<subseteq> {0} \<and>
        length payload < length [9, 8, 7, 6, 5 :: u8] + 4 \<and> hint_stream i3 = [] \<and>
        io_output i3 = io_output (with_input [9, 8, 7, 6, 5]))"
  by (rule hint_input_roundtrip) (simp_all add: with_input_def)

text \<open>A write to the public output at any offset puts its bytes there, keeps every other
  byte, and fills a gap between the old end and the offset with zeroes.\<close>

lemma write_output_overlays:
  "io_output (write_output i offset bytes) =
     map (\<lambda>k. if offset \<le> k \<and> k < offset + length bytes then bytes ! (k - offset)
              else if k < length (io_output i) then io_output i ! k else 0)
       [0..<max (length (io_output i)) (offset + length bytes)]"
proof (rule nth_equalityI)
  show "length (io_output (write_output i offset bytes)) = length (map (\<lambda>k.
      if offset \<le> k \<and> k < offset + length bytes then bytes ! (k - offset)
      else if k < length (io_output i) then io_output i ! k else 0)
      [0..<max (length (io_output i)) (offset + length bytes)])"
    by (simp add: write_output_def Let_def)
  fix k
  assume "k < length (io_output (write_output i offset bytes))"
  then have "k < max (length (io_output i)) (offset + length bytes)"
    by (simp add: write_output_def Let_def split: if_splits)
  then show "io_output (write_output i offset bytes) ! k = map (\<lambda>k.
      if offset \<le> k \<and> k < offset + length bytes then bytes ! (k - offset)
      else if k < length (io_output i) then io_output i ! k else 0)
      [0..<max (length (io_output i)) (offset + length bytes)] ! k"
    by (auto simp: write_output_def Let_def nth_append nth_resize_zero)
qed

end
