(* ===== verification/Modular.thy ===== *)
theory Modular
  imports Sqrt Cpu Encoding Format Io
begin

text \<open>
  The modular instructions of \<^verbatim>\<open>precompiles/src/modular.rs\<close>: operands are little-endian numbers
  in guest memory, and the two hint operations replace the host's hint stream.
\<close>

section \<open>Operands\<close>

definition read_le :: "cpu \<Rightarrow> u32 \<Rightarrow> nat \<Rightarrow> nat" where
  "read_le c ptr n = le_val (read_vec (cpu_mem c) ptr n)"

definition write_le :: "cpu \<Rightarrow> u32 \<Rightarrow> nat \<Rightarrow> nat \<Rightarrow> cpu" where
  "write_le c ptr val n =
     c\<lparr>cpu_mem := write_bytes_from (cpu_mem c) ptr 0 (resize_zero n (to_bytes_le val))\<rparr>"

section \<open>The modular instructions\<close>

text \<open>A value the host computes, then the rest of the instruction on the processor as it is by then. A
  failure leaves the processor as the instruction has changed it so far.\<close>

definition compute :: "'a res \<Rightarrow> cpu \<Rightarrow> ('a \<Rightarrow> cpu \<Rightarrow> unit res \<times> cpu) \<Rightarrow> unit res \<times> cpu" where
  "compute r c k = (case r of Inl e \<Rightarrow> (Inl e, c) | Inr v \<Rightarrow> k v c)"

lemma compute_simps [simp]: "compute (Inl e) c k = (Inl e, c)" "compute (Inr v) c k = k v c"
  by (simp_all add: compute_def)

definition do_mod_op :: "cpu \<Rightarrow> u32 \<Rightarrow> modulus_entry \<Rightarrow> u32 \<Rightarrow> unit res \<times> cpu" where
  "do_mod_op c insn ent op =
     (let rd_idx = drop_bit 7 insn AND 0x1f;
          out = read_reg c rd_idx;
          a_ptr = read_reg c (rs1 insn);
          b_ptr = read_reg c (rs2 insn);
          n = me_limb_bytes ent;
          a = read_le c a_ptr n;
          b = read_le c b_ptr n;
          p = me_modulus ent
      in if op = MOD_ADD then
          compute (rem_big (a + b) p) c (\<lambda>r c. (Inr (), write_le c out r n))
        else if op = MOD_SUB then
          compute (if a \<ge> b then rem_big (a - b) p else bind_res (sub_big (p + a) b) (\<lambda>d. rem_big d p)) c
            (\<lambda>r c. (Inr (), write_le c out r n))
        else if op = MOD_MUL then
          compute (rem_big (a * b) p) c (\<lambda>r c. (Inr (), write_le c out r n))
        else if op = MOD_DIV then
          compute (mod_inv b p) c (\<lambda>found c.
            case found of
              None \<Rightarrow> (Inl (Failed (CustomOp (''modular inverse of zero/non-coprime b in '' @
                me_name ent @ '' divmod at pc=0x'' @ fmt_08x (cpu_pc c)))), c)
            | Some b_inv \<Rightarrow> compute (rem_big (a * b_inv) p) c (\<lambda>r c. (Inr (), write_le c out r n)))
        else if op = MOD_ISEQ then
          compute (rem_big a p) c (\<lambda>ra c. compute (rem_big b p) c (\<lambda>rb c.
            (Inr (), write_reg c rd_idx (if ra = rb then 1 else 0))))
        else if op = MOD_SETUP then (Inr (), c)
        else (Inl (Failed (CustomOp (''unknown modular op='' @ fmt_dec (unat op) @ '' for modulus '' @
          me_name ent @ '' at pc=0x'' @ fmt_08x (cpu_pc c)))), c))"

definition sqrt_hint_bytes :: "bool \<Rightarrow> nat \<Rightarrow> nat \<Rightarrow> u8 list" where
  "sqrt_hint_bytes success s_root n =
     [if success then 1 else 0] @ [0, 0, 0] @ resize_zero n (to_bytes_le s_root)"

definition handle_modular :: "(nat \<Rightarrow> nat \<Rightarrow> u8 list) \<Rightarrow> precompile_handler \<Rightarrow> cpu \<Rightarrow> u32
    \<Rightarrow> unit res \<times> cpu \<times> precompile_handler" where
  "handle_modular fill h c insn =
     (let f7 = drop_bit 25 insn AND 0x7f;
          mod_idx = unat (f7 div MODULAR_MAX_KINDS);
          op = f7 mod MODULAR_MAX_KINDS
      in if \<not> mod_idx < length (moduli h) then
           (Inl (Failed (CustomOp (''modular: mod_idx '' @ fmt_dec mod_idx @ '' out of range (have '' @
             fmt_dec (length (moduli h)) @ '') at pc=0x'' @ fmt_08x (cpu_pc c)))), c, h)
         else
           let ent = moduli h ! mod_idx in
           if op = MOD_HINT_NON_QR then
             case find_non_qr_openvm fill (me_modulus ent) of
               Inl e \<Rightarrow> (Inl e, c, h)
             | Inr non_qr \<Rightarrow> (Inr (), c,
                 replace_hint_stream h (resize_zero (me_limb_bytes ent) (to_bytes_le non_qr)))
           else if op = MOD_HINT_SQRT then
             let x_ptr = read_reg c (drop_bit 15 insn AND 0x1f);
                 x = read_le c x_ptr (me_limb_bytes ent)
             in case bind_res (find_non_qr_openvm fill (me_modulus ent))
                       (\<lambda>non_qr. sqrt_hint x (me_modulus ent) non_qr) of
                  Inl e \<Rightarrow> (Inl e, c, h)
                | Inr (success, s_root) \<Rightarrow> (Inr (), c,
                    replace_hint_stream h (sqrt_hint_bytes success s_root (me_limb_bytes ent)))
           else case do_mod_op c insn ent op of (r, c) \<Rightarrow> (r, c, h))"

section \<open>Operands in memory\<close>

lemma write_le_slice: "write_le c ptr v n = c\<lparr>cpu_mem := write_slice (cpu_mem c) ptr (le_bytes n v)\<rparr>"
  by (simp add: write_le_def write_slice_def resize_to_bytes_le)

lemma read_le_write_slice:
  assumes "wf_memory m" "n \<le> 2 ^ 32" "v < 256 ^ n"
  shows "le_val (read_vec (write_slice m ptr (le_bytes n v)) ptr n) = v"
  using assms read_vec_write_slice [of m "le_bytes n v" ptr] by (simp add: le_val_le_bytes)

lemma read_le_bound: "read_le c ptr n < 256 ^ n"
  using le_val_bound [of "read_vec (cpu_mem c) ptr n"] by (simp add: read_le_def)

section \<open>Arithmetic modulo p\<close>

text \<open>What a result \<open>r\<close> of an operation is: the residue of the sum or product, and the number
  that gives back the first operand for difference and quotient.\<close>

definition mod_result :: "u32 \<Rightarrow> nat \<Rightarrow> nat \<Rightarrow> nat \<Rightarrow> nat \<Rightarrow> bool" where
  "mod_result op p a b r \<longleftrightarrow> r < p \<and>
     (if op = MOD_ADD then r = (a + b) mod p
      else if op = MOD_SUB then (r + b) mod p = a mod p
      else if op = MOD_MUL then r = a * b mod p
      else r * b mod p = a mod p)"

text \<open>When an operation has a result: a difference needs \<open>b \<le> p + a\<close>, a quotient an
  invertible divisor.\<close>

definition mod_defined :: "u32 \<Rightarrow> nat \<Rightarrow> nat \<Rightarrow> nat \<Rightarrow> bool" where
  "mod_defined op p a b \<longleftrightarrow>
     (op = MOD_ADD \<or> op = MOD_MUL \<or> op = MOD_SUB \<and> b \<le> p + a \<or> op = MOD_DIV \<and> coprime b p)"

lemma mod_sub_result:
  assumes "0 < p" "b \<le> p + a"
  shows "((if b \<le> a then a - b else p + a - b) mod p + b) mod p = a mod (p::nat)"
  using assms by (auto simp: mod_add_left_eq)

lemma quotient_result:
  assumes "b * i mod p = 1"
  shows "(a * i mod p) * b mod p = a mod (p::nat)"
proof -
  have "(a * i mod p) * b mod p = a * (b * i mod p) mod p"
    by (simp add: mod_mult_left_eq mod_mult_right_eq ac_simps)
  with assms show ?thesis
    by simp
qed

lemmas mod_codes = MOD_ADD_def MOD_SUB_def MOD_MUL_def MOD_DIV_def MOD_ISEQ_def MOD_SETUP_def

lemma do_mod_op_defined:
  assumes p: "1 < me_modulus e"
    and n: "n = me_limb_bytes e"
    and a: "a = read_le c (read_reg c (rs1 insn)) n" and b: "b = read_le c (read_reg c (rs2 insn)) n"
    and d: "mod_defined op (me_modulus e) a b"
  shows "\<exists>r. do_mod_op c insn e op =
      (Inr (), c\<lparr>cpu_mem := write_slice (cpu_mem c) (read_reg c (rd insn)) (le_bytes n r)\<rparr>) \<and>
    mod_result op (me_modulus e) a b r"
proof -
  let ?p = "me_modulus e"
  have rd: "drop_bit 7 insn AND 0x1f = rd insn"
    by (simp add: rd_def)
  note simps = do_mod_op_def Let_def rd rem_big_def sub_big_def write_le_slice mod_result_def mod_codes
    a [symmetric] b [symmetric] n [symmetric]
  from d consider "op = MOD_ADD" | "op = MOD_MUL" | "op = MOD_SUB" "b \<le> ?p + a" | "op = MOD_DIV" "coprime b ?p"
    by (auto simp: mod_defined_def)
  then show ?thesis
  proof cases
    case 1
    with p show ?thesis
      by (simp add: simps)
  next
    case 2
    with p show ?thesis
      by (simp add: simps)
  next
    case 3
    with p mod_sub_result [of ?p b a] show ?thesis
      by (intro exI [of _ "(if b \<le> a then a - b else ?p + a - b) mod ?p"]) (auto simp: simps)
  next
    case 4
    with mod_inv_cases [OF p, of b] obtain i where "mod_inv b ?p = Inr (Some i)" "b * i mod ?p = 1"
      by auto
    with 4 p quotient_result [of b i ?p a] show ?thesis
      by (intro exI [of _ "a * i mod ?p"]) (simp add: simps)
  qed
qed

text \<open>C14. The four arithmetic instructions compute in the residues modulo \<open>p\<close>: where the operation
  is defined, the destination receives the canonical representative of the sum, difference, product
  or quotient of the operands as they are before the write, reduced or not, aliased or not, and no
  byte outside the destination changes.\<close>

theorem modular_arithmetic:
  assumes "wf_memory (cpu_mem c)" and "entry_ok e"
    and "mod_defined op (me_modulus e) (read_le c (read_reg c (rs1 insn)) (me_limb_bytes e))
      (read_le c (read_reg c (rs2 insn)) (me_limb_bytes e))"
  shows "\<exists>m. do_mod_op c insn e op = (Inr (), c\<lparr>cpu_mem := m\<rparr>) \<and>
    mod_result op (me_modulus e) (read_le c (read_reg c (rs1 insn)) (me_limb_bytes e))
      (read_le c (read_reg c (rs2 insn)) (me_limb_bytes e))
      (le_val (read_vec m (read_reg c (rd insn)) (me_limb_bytes e))) \<and>
    (\<forall>addr. me_limb_bytes e \<le> unat (addr - read_reg c (rd insn)) \<longrightarrow> read_u8 m addr = read_u8 (cpu_mem c) addr)"
proof -
  let ?n = "me_limb_bytes e" and ?out = "read_reg c (rd insn)"
  have p: "1 < me_modulus e" "me_modulus e \<le> 256 ^ ?n" "?n \<le> 2 ^ 32"
    using assms(2) by (auto simp: entry_ok_def modulus_ok_def)
  from do_mod_op_defined [OF p(1) refl refl refl assms(3)] obtain r where
    r: "do_mod_op c insn e op = (Inr (), c\<lparr>cpu_mem := write_slice (cpu_mem c) ?out (le_bytes ?n r)\<rparr>)"
    "mod_result op (me_modulus e) (read_le c (read_reg c (rs1 insn)) ?n) (read_le c (read_reg c (rs2 insn)) ?n) r"
    by blast
  have "r < 256 ^ ?n"
    using r(2) p(2) by (simp add: mod_result_def)
  then have "le_val (read_vec (write_slice (cpu_mem c) ?out (le_bytes ?n r)) ?out ?n) = r"
    using assms(1) p(3) by (rule read_le_write_slice [rotated 2])
  moreover have "read_u8 (write_slice (cpu_mem c) ?out (le_bytes ?n r)) addr = read_u8 (cpu_mem c) addr"
    if "?n \<le> unat (addr - ?out)" for addr
    using that assms(1) p(3) by (simp add: mem_laws overlay_def)
  ultimately show ?thesis
    using r by auto
qed

text \<open>C15. Everything else the modular instructions do: IsEq compares the residues and writes the
  register, Setup does nothing, a subtrahend above \<open>p + a\<close> panics, a divisor that is not invertible
  and an unknown operation are reported; none of the failures changes the processor.\<close>

theorem modular_other_outcomes:
  assumes "entry_ok e"
    and "\<not> mod_defined op (me_modulus e) (read_le c (read_reg c (rs1 insn)) (me_limb_bytes e))
      (read_le c (read_reg c (rs2 insn)) (me_limb_bytes e))"
  shows "do_mod_op c insn e op =
     (if op = MOD_ISEQ then
        (Inr (), write_reg c (rd insn)
          (if read_le c (read_reg c (rs1 insn)) (me_limb_bytes e) mod me_modulus e =
              read_le c (read_reg c (rs2 insn)) (me_limb_bytes e) mod me_modulus e then 1 else 0))
      else if op = MOD_SETUP then (Inr (), c)
      else if op = MOD_SUB
        then (Inl (Panicked ''Cannot subtract b from a because b is larger than a.''), c)
      else if op = MOD_DIV
        then (Inl (Failed (CustomOp (''modular inverse of zero/non-coprime b in '' @ me_name e @
          '' divmod at pc=0x'' @ fmt_08x (cpu_pc c)))), c)
      else (Inl (Failed (CustomOp (''unknown modular op='' @ fmt_dec (unat op) @ '' for modulus '' @
        me_name e @ '' at pc=0x'' @ fmt_08x (cpu_pc c)))), c))"
proof -
  have p: "1 < me_modulus e"
    using assms(1) by (simp add: entry_ok_def modulus_ok_def)
  note inv_cases = mod_inv_cases [OF p, of "read_le c (read_reg c (rs2 insn)) (me_limb_bytes e)"]
  show ?thesis
    using p inv_cases assms(2)
    by (auto simp: do_mod_op_def Let_def rem_big_def sub_big_def mod_defined_def mod_codes rd_def)
qed

text \<open>The witnesses' modulus.\<close>

definition seven :: modulus_entry where
  "seven = \<lparr>me_name = ''seven'', me_limb_bytes = 1, me_modulus = 7\<rparr>"

lemma entry_ok_seven: "entry_ok seven"
  by (simp add: seven_def entry_ok_def modulus_ok_def)

theorem modular_arithmetic_witness:
  "\<exists>m. do_mod_op (example_cpu [(0x100, [3]), (0x200, [5])] [(10, 0x100), (11, 0x200)]) (R_type 0 11 10 0 10 0x2b) seven MOD_DIV
     = (Inr (), (example_cpu [(0x100, [3]), (0x200, [5])] [(10, 0x100), (11, 0x200)])\<lparr>cpu_mem := m\<rparr>) \<and>
     mod_result MOD_DIV 7 3 5 (le_val (read_vec m 0x100 1))"
proof -
  let ?c = "example_cpu [(0x100, [3]), (0x200, [5])] [(10, 0x100), (11, 0x200)]"
  let ?insn = "R_type 0 11 10 0 10 0x2b"
  have regs: "read_reg ?c (rd ?insn) = 0x100" "read_reg ?c (rs1 ?insn) = 0x100" "read_reg ?c (rs2 ?insn) = 0x200"
    unfolding example_cpu_reg by code_simp+
  have r: "read_reg ?c (rd ?insn) = 0x100" "read_le ?c (read_reg ?c (rs1 ?insn)) 1 = 3"
    "read_le ?c (read_reg ?c (rs2 ?insn)) 1 = 5"
    unfolding regs by (simp_all add: read_le_def read_vec_def example_cpu_byte)
  have s: "me_modulus seven = 7" "me_limb_bytes seven = 1"
    by (simp_all add: seven_def)
  have d: "mod_defined MOD_DIV 7 3 5"
    by (simp add: mod_defined_def mod_codes coprime_iff_gcd_eq_1 gcd_non_0_nat)
  have m: "wf_memory (cpu_mem ?c)"
    by (simp add: keeps_wf)
  from modular_arithmetic [OF m entry_ok_seven, of MOD_DIV ?insn, unfolded s r, OF d] show ?thesis
    by auto
qed

theorem modular_other_outcomes_witness:
  "do_mod_op (example_cpu [(0x100, [3]), (0x200, [15])] [(10, 0x100), (11, 0x200)]) (R_type 0 11 10 0 10 0x2b) seven MOD_SUB
     = (Inl (Panicked ''Cannot subtract b from a because b is larger than a.''),
        example_cpu [(0x100, [3]), (0x200, [15])] [(10, 0x100), (11, 0x200)])"
proof -
  let ?c = "example_cpu [(0x100, [3]), (0x200, [15])] [(10, 0x100), (11, 0x200)]"
  let ?insn = "R_type 0 11 10 0 10 0x2b"
  have regs: "read_reg ?c (rs1 ?insn) = 0x100" "read_reg ?c (rs2 ?insn) = 0x200"
    unfolding example_cpu_reg by code_simp+
  have r: "read_le ?c (read_reg ?c (rs1 ?insn)) 1 = 3" "read_le ?c (read_reg ?c (rs2 ?insn)) 1 = 15"
    unfolding regs by (simp_all add: read_le_def read_vec_def example_cpu_byte)
  have s: "me_modulus seven = 7" "me_limb_bytes seven = 1"
    by (simp_all add: seven_def)
  have d: "\<not> mod_defined MOD_SUB 7 3 15"
    by (simp add: mod_defined_def mod_codes)
  from modular_other_outcomes [OF entry_ok_seven, of MOD_SUB ?c ?insn, unfolded s r, OF d] show ?thesis
    by (simp add: mod_codes)
qed

section \<open>The square root hint\<close>

lemma handle_modular_hint_sqrt:
  assumes "unat (funct7 insn div MODULAR_MAX_KINDS) < length (moduli h)"
    and "funct7 insn mod MODULAR_MAX_KINDS = MOD_HINT_SQRT"
    and "e = moduli h ! unat (funct7 insn div MODULAR_MAX_KINDS)"
  shows "handle_modular fill h c insn =
    (case bind_res (find_non_qr_openvm fill (me_modulus e))
        (\<lambda>z. sqrt_hint (read_le c (read_reg c (rs1 insn)) (me_limb_bytes e)) (me_modulus e) z) of
       Inl f \<Rightarrow> (Inl f, c, h)
     | Inr (success, s) \<Rightarrow> (Inr (), c, replace_hint_stream h (sqrt_hint_bytes success s (me_limb_bytes e))))"
proof -
  have f: "drop_bit 25 insn AND 0x7f = funct7 insn" "drop_bit 15 insn AND 0x1f = rs1 insn"
    by (simp_all add: funct7_def rs1_def)
  have d: "MOD_HINT_SQRT \<noteq> MOD_HINT_NON_QR"
    by (simp add: MOD_HINT_NON_QR_def MOD_HINT_SQRT_def)
  show ?thesis
    unfolding handle_modular_def Let_def f assms(3) using assms(1,2) d by simp
qed

text \<open>C17. HintSqrt never fails on a prime modulus once the sampler has found a non-residue: the hint
  stream is replaced by a four-byte flag that says whether the operand is a square, and a root of the
  operand or else of its product with the non-residue, reduced and of the operand width. The
  \<^verbatim>\<open>expect\<close> of the second attempt cannot panic.\<close>

theorem hint_sqrt_supplies_root:
  assumes "unat (funct7 insn div MODULAR_MAX_KINDS) < length (moduli h)"
    and "funct7 insn mod MODULAR_MAX_KINDS = MOD_HINT_SQRT"
    and "e = moduli h ! unat (funct7 insn div MODULAR_MAX_KINDS)" and "p = me_modulus e"
    and "prime_num p" and "p mod 2 = 1" and "find_non_qr_openvm fill p = Inr non_qr"
    and "x = read_le c (read_reg c (rs1 insn)) (me_limb_bytes e)"
  shows "\<exists>s. handle_modular fill h c insn = (Inr (), c, replace_hint_stream h
        (le_bytes 4 (if is_square p x then 1 else 0) @ le_bytes (me_limb_bytes e) s)) \<and>
      s < p \<and> s * s mod p = (if is_square p x then x else x * non_qr) mod p"
proof -
  note z = find_non_qr_openvm_correct [OF assms(5-7)]
  obtain s where s: "sqrt_hint x p non_qr = Inr (is_square p x, s)" "s < p"
    "s * s mod p = (if is_square p x then x else x * non_qr) mod p"
    using sqrt_hint_correct [OF assms(5,6) z] by blast
  have b: "sqrt_hint_bytes f s n = le_bytes 4 (if f then 1 else 0) @ le_bytes n s" for f n
  proof -
    have "(4 :: nat) = Suc (Suc (Suc (Suc 0)))"
      by simp
    then have "le_bytes 4 v = [of_nat v, of_nat (v div 256), of_nat (v div 256 div 256), of_nat (v div 256 div 256 div 256)]" for v
      by (simp only: le_bytes.simps)
    then show ?thesis
      by (simp add: sqrt_hint_bytes_def resize_to_bytes_le)
  qed
  have "handle_modular fill h c insn = (Inr (), c, replace_hint_stream h
      (le_bytes 4 (if is_square p x then 1 else 0) @ le_bytes (me_limb_bytes e) s))"
    unfolding handle_modular_hint_sqrt [OF assms(1-3)] assms(4) [symmetric] assms(8) [symmetric]
    by (simp only: assms(7) bind_res_simps s(1) sum.case prod.case b)
  with s show ?thesis
    by blast
qed

theorem hint_sqrt_supplies_root_witness:
  "\<exists>s. handle_modular (\<lambda>_ _. []) ((new_handler [])\<lparr>moduli := [seven]\<rparr>) (example_cpu [(0x100, [3])] [(10, 0x100)])
      (R_type 7 0 10 0 0 0x2b) = (Inr (), example_cpu [(0x100, [3])] [(10, 0x100)],
        replace_hint_stream ((new_handler [])\<lparr>moduli := [seven]\<rparr>) (le_bytes 4 0 @ le_bytes 1 s)) \<and>
    s * s mod 7 = 4"
proof -
  let ?h = "(new_handler [])\<lparr>moduli := [seven]\<rparr>" and ?c = "example_cpu [(0x100, [3])] [(10, 0x100)]"
  let ?insn = "R_type 7 0 10 0 0 0x2b"
  have f: "funct7 ?insn = 7"
    by code_simp
  have i: "unat (funct7 ?insn div MODULAR_MAX_KINDS) < length (moduli ?h)"
    "funct7 ?insn mod MODULAR_MAX_KINDS = MOD_HINT_SQRT"
    "seven = moduli ?h ! unat (funct7 ?insn div MODULAR_MAX_KINDS)"
    by (simp_all add: f MODULAR_MAX_KINDS_def MOD_HINT_SQRT_def)
  have p: "7 = me_modulus seven" "me_limb_bytes seven = 1"
    by (simp_all add: seven_def)
  have z: "find_non_qr_openvm (\<lambda>_ _. []) 7 = Inr 6"
    by (simp add: find_non_qr_openvm_def)
  have regs: "read_reg ?c (rs1 ?insn) = 0x100"
    unfolding example_cpu_reg by code_simp
  have x: "3 = read_le ?c (read_reg ?c (rs1 ?insn)) 1"
    unfolding regs by (simp add: read_le_def read_vec_def example_cpu_byte)
  have "\<not> is_square 7 3"
    by code_simp
  with hint_sqrt_supplies_root [OF i p(1) prime_7 _ z, of 3 ?c] x p(2) show ?thesis
    by auto
qed
lemma handle_modular_hint_non_qr:
  assumes "unat (funct7 insn div MODULAR_MAX_KINDS) < length (moduli h)"
    and "funct7 insn mod MODULAR_MAX_KINDS = MOD_HINT_NON_QR"
    and "e = moduli h ! unat (funct7 insn div MODULAR_MAX_KINDS)"
    and "find_non_qr_openvm fill (me_modulus e) = Inr z"
  shows "handle_modular fill h c insn =
    (Inr (), c, replace_hint_stream h (le_bytes (me_limb_bytes e) z))"
proof -
  have f: "drop_bit 25 insn AND 0x7f = funct7 insn"
    by (simp add: funct7_def)
  show ?thesis
    unfolding handle_modular_def Let_def f assms(3)
    using assms(1,2,4) by (simp add: assms(3) resize_to_bytes_le)
qed

end
