(* ===== verification/Operands.thy ===== *)
theory Operands
  imports Modular
begin

text \<open>
  Pairs of numbers in guest memory, one after the other: the elements of a quadratic extension
  and the affine points of a curve. A pair is written as one byte sequence and reads back.
\<close>

lemma write_bytes_from_shift: "write_bytes_from m (a + of_nat i) j bs = write_bytes_from m a (i + j) bs"
  by (induction bs arbitrary: m j) (simp_all add: ac_simps)

lemma write_slice_append:
  "write_slice m a (xs @ ys) = write_slice (write_slice m a xs) (a + of_nat (length xs)) ys"
  using write_bytes_from_shift [of _ a "length xs" 0 ys] flat.wrs_append [of m a 0 xs ys]
  by (simp add: write_slice_def)

lemma read_vec_append: "read_vec m a (n + k) = read_vec m a n @ read_vec m (a + of_nat n) k"
  by (rule nth_equalityI) (auto simp: nth_append algebra_simps of_nat_diff)

section \<open>A pair as one byte sequence\<close>

definition pair_bytes :: "nat \<Rightarrow> nat \<times> nat \<Rightarrow> u8 list" where
  "pair_bytes n v = le_bytes n (fst v) @ le_bytes n (snd v)"

definition operand_pair :: "memory \<Rightarrow> u32 \<Rightarrow> nat \<Rightarrow> nat \<times> nat" where
  "operand_pair m ptr n = (le_val (read_vec m ptr n), le_val (read_vec m (ptr + of_nat n) n))"

text \<open>The bytes from \<open>a\<close> on, \<open>k\<close> of them, are the only ones that may differ.\<close>

definition writes_only :: "memory \<Rightarrow> memory \<Rightarrow> u32 \<Rightarrow> nat \<Rightarrow> bool" where
  "writes_only m m' a k \<longleftrightarrow> (\<forall>addr. k \<le> unat (addr - a) \<longrightarrow> read_u8 m' addr = read_u8 m addr)"

lemma length_pair_bytes [simp]: "length (pair_bytes n v) = n + n"
  by (simp add: pair_bytes_def)

lemma write_le_pair:
  "write_le (write_le c out x n) (out + of_nat n) y n =
     c\<lparr>cpu_mem := write_slice (cpu_mem c) out (pair_bytes n (x, y))\<rparr>"
  by (simp add: write_le_slice pair_bytes_def write_slice_append)

lemma writes_only_write_slice:
  "wf_memory m \<Longrightarrow> length bs \<le> 2 ^ 32 \<Longrightarrow> writes_only m (write_slice m a bs) a (length bs)"
  by (simp add: writes_only_def mem_laws overlay_def)

lemma operand_pair_write:
  assumes "wf_memory m" "2 * n \<le> 2 ^ 32" "fst v < 256 ^ n" "snd v < 256 ^ n"
  shows "operand_pair (write_slice m a (pair_bytes n v)) a n = v"
proof -
  have "read_vec (write_slice m a (pair_bytes n v)) a (n + n) = pair_bytes n v"
    using read_vec_write_slice [of m "pair_bytes n v" a] assms by simp
  then have "read_vec (write_slice m a (pair_bytes n v)) a n = le_bytes n (fst v) \<and>
      read_vec (write_slice m a (pair_bytes n v)) (a + of_nat n) n = le_bytes n (snd v)"
    by (simp add: read_vec_append pair_bytes_def)
  then show ?thesis
    using assms(3,4) by (simp add: operand_pair_def le_val_le_bytes)
qed

text \<open>What an instruction that stores a pair does to the processor.\<close>

lemma stored_pair:
  assumes "wf_memory (cpu_mem c)" "2 * n \<le> 2 ^ 32" "p \<le> 256 ^ n" "fst v < p" "snd v < p"
    and "r = (Inr (), c\<lparr>cpu_mem := write_slice (cpu_mem c) a (pair_bytes n v)\<rparr>)"
  shows "\<exists>m. r = (Inr (), c\<lparr>cpu_mem := m\<rparr>) \<and> operand_pair m a n = v \<and> writes_only (cpu_mem c) m a (2 * n)"
proof -
  have "writes_only (cpu_mem c) (write_slice (cpu_mem c) a (pair_bytes n v)) a (2 * n)"
    using writes_only_write_slice [of "cpu_mem c" "pair_bytes n v" a] assms(1,2) by (simp add: mult_2)
  then show ?thesis
    using assms operand_pair_write [of "cpu_mem c" n v a] by (intro exI) (auto simp: assms(6))
qed

end
