(* ===== verification/Fp2.thy ===== *)
theory Fp2
  imports Operands
begin

text \<open>
  The quadratic extension instructions of \<^verbatim>\<open>precompiles/src/modular.rs\<close> (\<^verbatim>\<open>handle_complex\<close>):
  elements \<open>c0 + c1 X\<close> with \<open>X\<^sup>2 = -1\<close>, two little-endian numbers one after the other.
\<close>

section \<open>The instructions\<close>

definition complex_sub :: "nat \<Rightarrow> nat \<Rightarrow> nat \<Rightarrow> nat res" where
  "complex_sub a b p =
     (if a \<ge> b then rem_big (a - b) p else bind_res (sub_big (p + a) b) (\<lambda>d. rem_big d p))"

text \<open>The first coefficient of a product, with the multiple of \<open>p\<close> that keeps the difference
  from going below zero.\<close>

definition complex_c0 :: "nat \<Rightarrow> nat \<Rightarrow> nat \<Rightarrow> nat \<Rightarrow> nat \<Rightarrow> nat res" where
  "complex_c0 a0 a1 b0 b1 p =
     (let r0_pre = a0 * b0; r0_neg = a1 * b1 in
      if r0_pre \<ge> r0_neg then rem_big (r0_pre - r0_neg) p
      else if p = 0 then Inl (Panicked ''attempt to divide by zero'')
      else
        let diff = r0_neg - r0_pre; k = div_ceil diff p
        in bind_res (sub_big (k * p + r0_pre) r0_neg) (\<lambda>d. rem_big d p))"

definition conj_coefficient :: "nat \<Rightarrow> nat \<Rightarrow> nat res" where
  "conj_coefficient b1 p =
     (if b1 = 0 then Inr 0 else bind_res (sub_big p b1) (\<lambda>d. rem_big d p))"

definition write_pair :: "cpu \<Rightarrow> u32 \<Rightarrow> nat \<Rightarrow> nat \<Rightarrow> nat \<Rightarrow> cpu" where
  "write_pair c out r0 r1 n = write_le (write_le c out r0 n) (out + of_nat n) r1 n"

definition do_complex_op :: "cpu \<Rightarrow> u32 \<Rightarrow> modulus_entry \<Rightarrow> u32 \<Rightarrow> unit res \<times> cpu" where
  "do_complex_op c insn ent op =
     (let n = me_limb_bytes ent;
          rd_idx = drop_bit 7 insn AND 0x1f;
          out = read_reg c rd_idx;
          a_ptr = read_reg c (rs1 insn);
          b_ptr = read_reg c (rs2 insn);
          p = me_modulus ent;
          a0 = read_le c a_ptr n;
          a1 = read_le c (a_ptr + of_nat n) n;
          b0 = read_le c b_ptr n;
          b1 = read_le c (b_ptr + of_nat n) n
      in if op = MOD_ADD then
          compute (rem_big (a0 + b0) p) c (\<lambda>r0 c. compute (rem_big (a1 + b1) p) c (\<lambda>r1 c.
            (Inr (), write_pair c out r0 r1 n)))
        else if op = MOD_SUB then
          compute (complex_sub a0 b0 p) c (\<lambda>r0 c. compute (complex_sub a1 b1 p) c (\<lambda>r1 c.
            (Inr (), write_pair c out r0 r1 n)))
        else if op = MOD_MUL then
          compute (complex_c0 a0 a1 b0 b1 p) c (\<lambda>r0 c.
            compute (rem_big (a0 * b1 + a1 * b0) p) c (\<lambda>r1 c. (Inr (), write_pair c out r0 r1 n)))
        else if op = MOD_DIV then
          compute (rem_big (b0 * b0 + b1 * b1) p) c (\<lambda>norm c.
            compute (mod_inv norm p) c (\<lambda>found c.
              case found of
                None \<Rightarrow> (Inl (Failed (CustomOp (''complex div: non-invertible norm at pc=0x'' @
                  fmt_08x (cpu_pc c)))), c)
              | Some norm_inv \<Rightarrow>
                  compute (conj_coefficient b1 p) c (\<lambda>conj1 c.
                  compute (rem_big (b0 * norm_inv) p) c (\<lambda>inv0 c.
                  compute (rem_big (conj1 * norm_inv) p) c (\<lambda>inv1 c.
                  compute (complex_c0 a0 a1 inv0 inv1 p) c (\<lambda>r0 c.
                  compute (rem_big (a0 * inv1 + a1 * inv0) p) c (\<lambda>r1 c.
                    (Inr (), write_pair c out r0 r1 n))))))))
        else if op = MOD_ISEQ then
          compute (rem_big a0 p) c (\<lambda>x0 c. compute (rem_big b0 p) c (\<lambda>y0 c.
            if x0 = y0 then
              compute (rem_big a1 p) c (\<lambda>x1 c. compute (rem_big b1 p) c (\<lambda>y1 c.
                (Inr (), write_reg c rd_idx (if x1 = y1 then 1 else 0))))
            else (Inr (), write_reg c rd_idx 0)))
        else if op = MOD_SETUP then (Inr (), c)
        else (Inl (Failed (CustomOp (''unknown complex op='' @ fmt_dec (unat op) @ '' for '' @
          me_name ent @ '' at pc=0x'' @ fmt_08x (cpu_pc c)))), c))"

definition handle_complex :: "precompile_handler \<Rightarrow> cpu \<Rightarrow> u32 \<Rightarrow> unit res \<times> cpu" where
  "handle_complex h c insn =
     (let f7 = drop_bit 25 insn AND 0x7f;
          idx = unat (f7 div MODULAR_MAX_KINDS);
          op = f7 mod MODULAR_MAX_KINDS
      in if \<not> idx < length (complex h) then
           (Inl (Failed (CustomOp (''complex: idx '' @ fmt_dec idx @ '' out of range (have '' @
             fmt_dec (length (complex h)) @ '') at pc=0x'' @ fmt_08x (cpu_pc c)))), c)
         else do_complex_op c insn (complex h ! idx) op)"

section \<open>The extension ring\<close>

text \<open>The specification: sums and products of pairs, the product with the sign that
  \<open>X\<^sup>2 = -1\<close> gives, and the norm that decides whether a divisor is invertible.\<close>

type_synonym fp2 = "nat \<times> nat"

definition fp2_reduce :: "nat \<Rightarrow> fp2 \<Rightarrow> fp2" where
  "fp2_reduce p a = (fst a mod p, snd a mod p)"

definition fp2_add :: "nat \<Rightarrow> fp2 \<Rightarrow> fp2 \<Rightarrow> fp2" where
  "fp2_add p a b = ((fst a + fst b) mod p, (snd a + snd b) mod p)"

definition fp2_mul :: "nat \<Rightarrow> fp2 \<Rightarrow> fp2 \<Rightarrow> fp2" where
  "fp2_mul p a b =
     (nat ((int (fst a) * int (fst b) - int (snd a) * int (snd b)) mod int p),
      (fst a * snd b + snd a * fst b) mod p)"

definition fp2_norm :: "nat \<Rightarrow> fp2 \<Rightarrow> nat" where
  "fp2_norm p b = (fst b * fst b + snd b * snd b) mod p"

text \<open>What the result of an instruction is, and when it has one.\<close>

definition complex_result :: "u32 \<Rightarrow> nat \<Rightarrow> fp2 \<Rightarrow> fp2 \<Rightarrow> fp2 \<Rightarrow> bool" where
  "complex_result op p a b r \<longleftrightarrow> fst r < p \<and> snd r < p \<and>
     (if op = MOD_ADD then r = fp2_add p a b
      else if op = MOD_SUB then fp2_add p r b = fp2_reduce p a
      else if op = MOD_MUL then r = fp2_mul p a b
      else fp2_mul p r b = fp2_reduce p a)"

definition complex_defined :: "u32 \<Rightarrow> nat \<Rightarrow> fp2 \<Rightarrow> fp2 \<Rightarrow> bool" where
  "complex_defined op p a b \<longleftrightarrow>
     (op = MOD_ADD \<or> op = MOD_MUL \<or>
      op = MOD_SUB \<and> fst b \<le> p + fst a \<and> snd b \<le> p + snd a \<or>
      op = MOD_DIV \<and> coprime (fp2_norm p b) p \<and> snd b \<le> p)"

section \<open>Arithmetic\<close>

lemma div_ceil_bound: "0 < p \<Longrightarrow> d \<le> div_ceil d p * p"
proof -
  assume "0 < p"
  then have less: "d mod p < p"
    by simp
  note eq = div_mult_mod_eq [of d p]
  show ?thesis
  proof (cases "d mod p = 0")
    case True
    with eq show ?thesis
      by (simp add: div_ceil_def)
  next
    case False
    then have "div_ceil d p * p = d div p * p + p"
      by (simp add: div_ceil_def)
    with eq less show ?thesis
      by linarith
  qed
qed

lemma complex_c0_eq:
  assumes "0 < p"
  shows "complex_c0 a0 a1 b0 b1 p = Inr (nat ((int a0 * int b0 - int a1 * int b1) mod int p))"
proof (cases "a1 * b1 \<le> a0 * b0")
  case True
  then have "int a0 * int b0 - int a1 * int b1 = int (a0 * b0 - a1 * b1)"
    by (simp add: of_nat_diff)
  then have "nat ((int a0 * int b0 - int a1 * int b1) mod int p) = (a0 * b0 - a1 * b1) mod p"
    by (simp only: zmod_int [symmetric] nat_int)
  with True assms show ?thesis
    by (simp add: complex_c0_def Let_def rem_big_def)
next
  case False
  define k where "k = div_ceil (a1 * b1 - a0 * b0) p"
  have k: "a1 * b1 \<le> k * p + a0 * b0"
    using div_ceil_bound [OF assms, of "a1 * b1 - a0 * b0"] by (simp add: k_def)
  then have "int (k * p + a0 * b0 - a1 * b1) = int a0 * int b0 - int a1 * int b1 + int k * int p"
    by (simp add: of_nat_diff)
  then have "(k * p + a0 * b0 - a1 * b1) mod p = nat ((int a0 * int b0 - int a1 * int b1) mod int p)"
    by (metis mod_mult_self1 nat_int zmod_int)
  with False assms k show ?thesis
    by (simp add: complex_c0_def Let_def rem_big_def sub_big_def flip: k_def)
qed

lemma complex_sub_eq:
  assumes "0 < p"
  shows "complex_sub a b p = (if b \<le> p + a
    then Inr ((if b \<le> a then a - b else p + a - b) mod p)
    else Inl (Panicked ''Cannot subtract b from a because b is larger than a.''))"
  using assms by (auto simp: complex_sub_def rem_big_def sub_big_def)

text \<open>Division in the extension: the product of the quotient with the divisor is the dividend.\<close>

lemma complex_quotient:
  fixes a0 a1 b0 b1 i v0 v1 r0 r1 q :: int
  assumes i: "q dvd (b0 * b0 + b1 * b1) * i - 1"
    and v: "q dvd v0 - b0 * i" "q dvd v1 + b1 * i"
    and r: "q dvd r0 - (a0 * v0 - a1 * v1)" "q dvd r1 - (a0 * v1 + a1 * v0)"
  shows "q dvd (r0 * b0 - r1 * b1) - a0" and "q dvd (r0 * b1 + r1 * b0) - a1"
proof -
  have "(r0 * b0 - r1 * b1) - a0 = b0 * (r0 - (a0 * v0 - a1 * v1)) - b1 * (r1 - (a0 * v1 + a1 * v0)) +
      ((a0 * b0 - a1 * b1) * (v0 - b0 * i) - (a1 * b0 + a0 * b1) * (v1 + b1 * i) +
       a0 * ((b0 * b0 + b1 * b1) * i - 1))"
    by algebra
  then show "q dvd (r0 * b0 - r1 * b1) - a0"
    by (simp only: dvd_add [OF dvd_diff [OF dvd_mult [OF r(1)] dvd_mult [OF r(2)]]
      dvd_add [OF dvd_diff [OF dvd_mult [OF v(1)] dvd_mult [OF v(2)]] dvd_mult [OF i]]])
  have "(r0 * b1 + r1 * b0) - a1 = b1 * (r0 - (a0 * v0 - a1 * v1)) + b0 * (r1 - (a0 * v1 + a1 * v0)) +
      ((a0 * b1 + a1 * b0) * (v0 - b0 * i) + (a0 * b0 - a1 * b1) * (v1 + b1 * i) +
       a1 * ((b0 * b0 + b1 * b1) * i - 1))"
    by algebra
  then show "q dvd (r0 * b1 + r1 * b0) - a1"
    by (simp only: dvd_add [OF dvd_add [OF dvd_mult [OF r(1)] dvd_mult [OF r(2)]]
      dvd_add [OF dvd_add [OF dvd_mult [OF v(1)] dvd_mult [OF v(2)]] dvd_mult [OF i]]])
qed

lemma fp2_mul_quotient:
  assumes p: "1 < p" and i: "(b0 * b0 + b1 * b1) mod p * i mod p = 1" and b1: "b1 \<le> p"
    and conj: "conj1 = (if b1 = 0 then 0 else (p - b1) mod p)"
    and v: "v0 = b0 * i mod p" "v1 = conj1 * i mod p"
    and r: "r0 = nat ((int a0 * int v0 - int a1 * int v1) mod int p)" "r1 = (a0 * v1 + a1 * v0) mod p"
  shows "fp2_mul p (r0, r1) (b0, b1) = fp2_reduce p (a0, a1)"
proof -
  have p0: "0 < p"
    using p by simp
  have "int p dvd (int b0 * int b0 + int b1 * int b1) * int i - 1"
  proof -
    have "((b0 * b0 + b1 * b1) * i) mod p = 1 mod p"
      using i p by (simp add: mod_mult_left_eq)
    then show ?thesis
      by (metis (mono_tags) mod_eq_dvd_iff of_nat_1 of_nat_add of_nat_mult zmod_int)
  qed
  moreover have "int p dvd int v0 - int b0 * int i"
    using mod_dvd_diff [OF p0, of "b0 * i"] by (simp add: v(1))
  moreover have "int p dvd int v1 + int b1 * int i"
  proof -
    have "int p dvd int conj1 + int b1"
    proof (cases "b1 = 0")
      case False
      then have "int p dvd int conj1 - int (p - b1)"
        using mod_dvd_diff [OF p0, of "p - b1"] by (simp add: conj)
      then have "int p dvd int conj1 - int (p - b1) + int p"
        by (intro dvd_add) simp_all
      moreover have "int conj1 - int (p - b1) + int p = int conj1 + int b1"
        using b1 by (simp add: of_nat_diff)
      ultimately show ?thesis
        by simp
    qed (simp add: conj)
    then have "int p dvd (int v1 - int (conj1 * i)) + (int conj1 + int b1) * int i"
      unfolding v(2) by (rule dvd_add [OF mod_dvd_diff [OF p0] dvd_mult2])
    then show ?thesis
      by (simp add: algebra_simps)
  qed
  moreover have "int p dvd int r0 - (int a0 * int v0 - int a1 * int v1)"
    unfolding r(1) by (rule nat_mod_dvd_diff [OF p0])
  moreover have "int p dvd int r1 - (int a0 * int v1 + int a1 * int v0)"
    using mod_dvd_diff [OF p0, of "a0 * v1 + a1 * v0"] by (simp add: r(2))
  ultimately have "int p dvd (int r0 * int b0 - int r1 * int b1) - int a0"
    "int p dvd (int r0 * int b1 + int r1 * int b0) - int a1"
    by (rule complex_quotient)+
  then show ?thesis
    using nat_mod_eqI_dvd [OF p0, of "int r0 * int b0 - int r1 * int b1" a0]
      mod_eqI_dvd [of p "r0 * b1 + r1 * b0" a1]
    by (simp add: fp2_mul_def fp2_reduce_def)
qed

section \<open>The instructions on pairs\<close>

lemma do_complex_op_defined:
  assumes p: "1 < me_modulus e"
    and n: "n = me_limb_bytes e"
    and a: "a = operand_pair (cpu_mem c) (read_reg c (rs1 insn)) n"
    and b: "b = operand_pair (cpu_mem c) (read_reg c (rs2 insn)) n"
    and d: "complex_defined op (me_modulus e) a b"
  shows "\<exists>r. do_complex_op c insn e op =
      (Inr (), c\<lparr>cpu_mem := write_slice (cpu_mem c) (read_reg c (rd insn)) (pair_bytes n r)\<rparr>) \<and>
    complex_result op (me_modulus e) a b r"
proof -
  let ?p = "me_modulus e"
  have rd: "drop_bit 7 insn AND 0x1f = rd insn"
    by (simp add: rd_def)
  have reads: "read_le c (read_reg c (rs1 insn)) n = fst a" "read_le c (read_reg c (rs1 insn) + of_nat n) n = snd a"
    "read_le c (read_reg c (rs2 insn)) n = fst b" "read_le c (read_reg c (rs2 insn) + of_nat n) n = snd b"
    by (simp_all add: a b operand_pair_def read_le_def)
  note simps = do_complex_op_def Let_def rd rem_big_def write_pair_def write_le_pair complex_result_def
    reads mod_codes n [symmetric]
  from d consider "op = MOD_ADD" | "op = MOD_MUL" | "op = MOD_SUB" "fst b \<le> ?p + fst a" "snd b \<le> ?p + snd a"
    | "op = MOD_DIV" "coprime (fp2_norm ?p b) ?p" "snd b \<le> ?p"
    by (auto simp: complex_defined_def)
  then show ?thesis
  proof cases
    case 1
    with p show ?thesis
      by (simp add: simps fp2_add_def)
  next
    case 2
    with p show ?thesis
      by (simp add: simps fp2_mul_def complex_c0_eq nat_less_iff)
  next
    case 3
    let ?r = "\<lambda>x y. (if y \<le> x then x - y else ?p + x - y) mod ?p"
    from 3 p mod_sub_result [of ?p "fst b" "fst a"] mod_sub_result [of ?p "snd b" "snd a"] show ?thesis
      by (intro exI [of _ "(?r (fst a) (fst b), ?r (snd a) (snd b))"])
        (simp add: simps complex_sub_eq fp2_add_def fp2_reduce_def)
  next
    case 4
    with mod_inv_cases [OF p, of "fp2_norm ?p b"] obtain i where
      i: "mod_inv (fp2_norm ?p b) ?p = Inr (Some i)" "fp2_norm ?p b * i mod ?p = 1"
      by auto
    define conj1 where "conj1 = (if snd b = 0 then 0 else (?p - snd b) mod ?p)"
    define v0 v1 where "v0 = fst b * i mod ?p" and "v1 = conj1 * i mod ?p"
    define r0 r1 where "r0 = nat ((int (fst a) * int v0 - int (snd a) * int v1) mod int ?p)"
      and "r1 = (fst a * v1 + snd a * v0) mod ?p"
    have c1: "conj_coefficient (snd b) ?p = Inr conj1"
      using 4 p by (simp add: conj_coefficient_def conj1_def sub_big_def rem_big_def)
    have "do_complex_op c insn e op =
        (Inr (), c\<lparr>cpu_mem := write_slice (cpu_mem c) (read_reg c (rd insn)) (pair_bytes n (r0, r1))\<rparr>)"
      using 4(1) p i(1) complex_c0_eq [of ?p "fst a" "snd a" v0 v1]
      by (simp add: simps c1 fp2_norm_def v0_def [symmetric] v1_def [symmetric] r0_def [symmetric] r1_def [symmetric])
    moreover have "fp2_mul ?p (r0, r1) (fst b, snd b) = fp2_reduce ?p (fst a, snd a)"
      using 4(3) i(2) by (intro fp2_mul_quotient [OF p _ _ conj1_def v0_def v1_def r0_def r1_def])
        (simp_all add: fp2_norm_def)
    moreover have "r0 < ?p" "r1 < ?p"
      using p by (simp_all add: r0_def r1_def nat_less_iff)
    ultimately show ?thesis
      using 4(1) by (intro exI [of _ "(r0, r1)"]) (simp add: complex_result_def mod_codes)
  qed
qed

section \<open>Properties\<close>

text \<open>C18. The quadratic extension instructions compute in the ring of pairs with \<open>X\<^sup>2 = -1\<close>: where the
  operation is defined, the destination receives the reduced sum, difference, product or quotient of
  the two pairs as they are before the write (the quotient times the divisor is the dividend again),
  and no byte outside the destination changes.\<close>

theorem complex_arithmetic:
  assumes "wf_memory (cpu_mem c)" and "entry_ok e" and "2 * me_limb_bytes e \<le> 2 ^ 32"
    and "a = operand_pair (cpu_mem c) (read_reg c (rs1 insn)) (me_limb_bytes e)"
    and "b = operand_pair (cpu_mem c) (read_reg c (rs2 insn)) (me_limb_bytes e)"
    and "complex_defined op (me_modulus e) a b"
  shows "\<exists>m. do_complex_op c insn e op = (Inr (), c\<lparr>cpu_mem := m\<rparr>) \<and>
    complex_result op (me_modulus e) a b (operand_pair m (read_reg c (rd insn)) (me_limb_bytes e)) \<and>
    writes_only (cpu_mem c) m (read_reg c (rd insn)) (2 * me_limb_bytes e)"
proof -
  have p: "1 < me_modulus e" "me_modulus e \<le> 256 ^ me_limb_bytes e"
    using assms(2) by (auto simp: entry_ok_def modulus_ok_def)
  obtain r where r: "do_complex_op c insn e op = (Inr (), c\<lparr>cpu_mem :=
      write_slice (cpu_mem c) (read_reg c (rd insn)) (pair_bytes (me_limb_bytes e) r)\<rparr>)"
    "complex_result op (me_modulus e) a b r"
    using do_complex_op_defined [OF p(1) refl assms(4-6)] by blast
  then have "fst r < me_modulus e" "snd r < me_modulus e"
    by (simp_all add: complex_result_def)
  from stored_pair [OF assms(1,3) p(2) this r(1)] r(2) show ?thesis
    by auto
qed

text \<open>C19. Everything else the quadratic extension instructions do: IsEq compares both residues and
  writes the register, Setup does nothing, a subtrahend coefficient above \<open>p + a\<close> panics, a divisor
  whose norm is not invertible is reported, an invertible one with its second coefficient above
  \<open>p\<close> panics, and an unknown operation is reported; none of the failures changes the processor.\<close>

theorem complex_other_outcomes:
  assumes "entry_ok e"
    and "a = operand_pair (cpu_mem c) (read_reg c (rs1 insn)) (me_limb_bytes e)"
    and "b = operand_pair (cpu_mem c) (read_reg c (rs2 insn)) (me_limb_bytes e)"
    and "\<not> complex_defined op (me_modulus e) a b"
  shows "do_complex_op c insn e op =
     (if op = MOD_ISEQ then
        (Inr (), write_reg c (rd insn)
          (if fp2_reduce (me_modulus e) a = fp2_reduce (me_modulus e) b then 1 else 0))
      else if op = MOD_SETUP then (Inr (), c)
      else if op = MOD_SUB \<or> op = MOD_DIV \<and> coprime (fp2_norm (me_modulus e) b) (me_modulus e)
        then (Inl (Panicked ''Cannot subtract b from a because b is larger than a.''), c)
      else if op = MOD_DIV
        then (Inl (Failed (CustomOp (''complex div: non-invertible norm at pc=0x'' @ fmt_08x (cpu_pc c)))), c)
      else (Inl (Failed (CustomOp (''unknown complex op='' @ fmt_dec (unat op) @ '' for '' @
        me_name e @ '' at pc=0x'' @ fmt_08x (cpu_pc c)))), c))"
proof -
  have p: "1 < me_modulus e"
    using assms(1) by (simp add: entry_ok_def modulus_ok_def)
  have reads: "read_le c (read_reg c (rs1 insn)) (me_limb_bytes e) = fst a"
    "read_le c (read_reg c (rs1 insn) + of_nat (me_limb_bytes e)) (me_limb_bytes e) = snd a"
    "read_le c (read_reg c (rs2 insn)) (me_limb_bytes e) = fst b"
    "read_le c (read_reg c (rs2 insn) + of_nat (me_limb_bytes e)) (me_limb_bytes e) = snd b"
    by (simp_all add: assms(2,3) operand_pair_def read_le_def)
  note inv_cases = mod_inv_cases [OF p, of "fp2_norm (me_modulus e) b"]
  note simps = do_complex_op_def Let_def reads rem_big_def sub_big_def mod_codes
  have rd: "drop_bit 7 insn AND 0x1f = rd insn"
    by (simp add: rd_def)
  consider "op = MOD_ISEQ" | "op = MOD_SETUP" | "op = MOD_SUB"
    | "op = MOD_DIV" | "op \<notin> {MOD_ADD, MOD_MUL, MOD_SUB, MOD_DIV, MOD_ISEQ, MOD_SETUP}"
    using assms(4) by (auto simp: complex_defined_def)
  then show ?thesis
  proof cases
    case 1
    with p show ?thesis
      by (auto simp: simps rd fp2_reduce_def)
  next
    case 3
    with assms(4) p show ?thesis
      by (auto simp: simps complex_sub_eq complex_defined_def)
  next
    case 4
    with assms(4) p inv_cases show ?thesis
      by (auto simp: simps conj_coefficient_def complex_defined_def fp2_norm_def)
  qed (use p in \<open>auto simp: simps\<close>)
qed

theorem complex_arithmetic_witness:
  "\<exists>m. do_complex_op (example_cpu [(0x100, [3, 1]), (0x200, [5, 2])] [(10, 0x100), (11, 0x200)])
      (R_type 0 11 10 0 10 0x2b) seven MOD_DIV
     = (Inr (), (example_cpu [(0x100, [3, 1]), (0x200, [5, 2])] [(10, 0x100), (11, 0x200)])\<lparr>cpu_mem := m\<rparr>) \<and>
     fp2_mul 7 (operand_pair m 0x100 1) (5, 2) = (3, 1)"
proof -
  let ?c = "example_cpu [(0x100, [3, 1]), (0x200, [5, 2])] [(10, 0x100), (11, 0x200)]"
  let ?insn = "R_type 0 11 10 0 10 0x2b"
  have regs: "read_reg ?c (rd ?insn) = 0x100" "read_reg ?c (rs1 ?insn) = 0x100" "read_reg ?c (rs2 ?insn) = 0x200"
    unfolding example_cpu_reg by code_simp+
  have r: "read_reg ?c (rd ?insn) = 0x100" "operand_pair (cpu_mem ?c) (read_reg ?c (rs1 ?insn)) 1 = (3, 1)"
    "operand_pair (cpu_mem ?c) (read_reg ?c (rs2 ?insn)) 1 = (5, 2)"
    unfolding regs by (simp_all add: operand_pair_def read_vec_def example_cpu_byte)
  have s: "me_modulus seven = 7" "me_limb_bytes seven = 1"
    by (simp_all add: seven_def)
  have d: "complex_defined MOD_DIV 7 (3, 1) (5, 2)"
    by (simp add: complex_defined_def fp2_norm_def mod_codes)
  have m: "wf_memory (cpu_mem ?c)"
    by (simp add: keeps_wf)
  from complex_arithmetic [OF m entry_ok_seven _ refl refl, of MOD_DIV ?insn, unfolded s r, OF _ d] show ?thesis
    by (auto simp: complex_result_def fp2_reduce_def mod_codes)
qed

theorem complex_other_outcomes_witness:
  "do_complex_op (example_cpu [(0x100, [3, 1]), (0x200, [15, 0])] [(10, 0x100), (11, 0x200)])
      (R_type 0 11 10 0 10 0x2b) seven MOD_SUB
     = (Inl (Panicked ''Cannot subtract b from a because b is larger than a.''),
        example_cpu [(0x100, [3, 1]), (0x200, [15, 0])] [(10, 0x100), (11, 0x200)])"
proof -
  let ?c = "example_cpu [(0x100, [3, 1]), (0x200, [15, 0])] [(10, 0x100), (11, 0x200)]"
  let ?insn = "R_type 0 11 10 0 10 0x2b"
  have regs: "read_reg ?c (rs1 ?insn) = 0x100" "read_reg ?c (rs2 ?insn) = 0x200"
    unfolding example_cpu_reg by code_simp+
  have r: "(3, 1) = operand_pair (cpu_mem ?c) (read_reg ?c (rs1 ?insn)) (me_limb_bytes seven)"
    "(15, 0) = operand_pair (cpu_mem ?c) (read_reg ?c (rs2 ?insn)) (me_limb_bytes seven)"
    unfolding regs by (simp_all add: seven_def operand_pair_def read_vec_def example_cpu_byte)
  have d: "\<not> complex_defined MOD_SUB (me_modulus seven) (3, 1) (15, 0)"
    by (simp add: seven_def complex_defined_def mod_codes)
  show ?thesis
    using complex_other_outcomes [OF entry_ok_seven r d] by (simp add: mod_codes)
qed

end
