(* ===== verification/Shanks.thy ===== *)
theory Shanks
  imports Sqrt
begin

text \<open>
  The square root of \<^verbatim>\<open>precompiles/src/ecc.rs\<close>: the textbook algorithm with its own search for a
  non-residue. Its main loop computes what the loop of \<^verbatim>\<open>modular.rs\<close> computes; a non-residue exists
  modulo every odd prime, so the search ends, and the routine decides squares.
\<close>

section \<open>The square root\<close>

text \<open>The search for a non-residue, by increments; it does not end when there is none.\<close>

partial_function (option) search_non_residue :: "nat \<Rightarrow> nat \<Rightarrow> nat \<Rightarrow> nat \<Rightarrow> nat option" where
  "search_non_residue half pm1 p z =
     (if modpow z half p \<noteq> pm1 mod p then search_non_residue half pm1 p (z + 1) else Some z)"

text \<open>The inner loop: the number of squarings up to one, or \<open>Some None\<close> for the early return. It
  does not end when \<open>m\<close> is zero and no square is one.\<close>

partial_function (option) order_search :: "nat \<Rightarrow> nat \<Rightarrow> nat \<Rightarrow> nat \<Rightarrow> nat option option" where
  "order_search p m tmp i =
     (if tmp \<noteq> 1 then
        let tmp = tmp * tmp mod p; i = i + 1
        in if i = m then Some None else order_search p m tmp i
      else Some (Some i))"

text \<open>The main loop. The amount of the shift \<open>1u32 << (m - i - 1)\<close> is computed with wrap-around and taken
  modulo 32, as in the release build; the counters themselves stay below the bit length of the
  modulus.\<close>

partial_function (option) shanks_loop :: "nat \<Rightarrow> nat \<Rightarrow> nat \<Rightarrow> nat \<Rightarrow> nat \<Rightarrow> nat option option" where
  "shanks_loop p m c t r =
     (if t = 1 then Some (Some r)
      else case order_search p m t 0 of
        None \<Rightarrow> None
      | Some None \<Rightarrow> Some None
      | Some (Some i) \<Rightarrow>
          let b = modpow c (2 ^ ((m + 2 ^ 32 - i - 1) mod 32)) p;
              c = b * b mod p;
              t = t * c mod p;
              r = r * b mod p
          in shanks_loop p i c t r)"

definition tonelli_shanks :: "nat \<Rightarrow> nat \<Rightarrow> nat option res" where
  "tonelli_shanks n p =
     (if n = 0 then Inr (Some 0)
      else bind_res (sub_big p 1) (\<lambda>pm1.
        let half = pm1 div 2 in
        if modpow n half p \<noteq> 1 then Inr None
        else case strip_twos pm1 0 of
          None \<Rightarrow> Inl Diverged
        | Some (q, s) \<Rightarrow>
            (case search_non_residue half pm1 p 2 of
               None \<Rightarrow> Inl Diverged
             | Some z \<Rightarrow>
                 (case shanks_loop p s (modpow z q p) (modpow n q p) (modpow n ((q + 1) div 2) p) of
                    None \<Rightarrow> Inl Diverged
                  | Some r \<Rightarrow> Inr r))))"

section \<open>The loops end\<close>

lemma search_non_residue_least:
  "z \<le> w \<Longrightarrow> modpow w half p = pm1 mod p \<Longrightarrow>
    \<exists>w'. search_non_residue half pm1 p z = Some w' \<and> z \<le> w' \<and> w' \<le> w \<and> modpow w' half p = pm1 mod p \<and>
      (\<forall>u \<in> {z..<w'}. modpow u half p \<noteq> pm1 mod p)"
proof (induction "w - z" arbitrary: z)
  case 0
  then show ?case
    by (subst search_non_residue.simps) auto
next
  case (Suc d)
  show ?case
  proof (cases "modpow z half p = pm1 mod p")
    case True
    with Suc.prems show ?thesis
      by (subst search_non_residue.simps) auto
  next
    case False
    with Suc.hyps(2) Suc.prems have "d = w - (z + 1)" "z + 1 \<le> w"
      by auto
    from Suc.hyps(1) [OF this Suc.prems(2)] obtain w' where
      w: "search_non_residue half pm1 p (z + 1) = Some w'" "z + 1 \<le> w'" "w' \<le> w" "modpow w' half p = pm1 mod p"
      "\<forall>u \<in> {z + 1..<w'}. modpow u half p \<noteq> pm1 mod p"
      by blast
    have "modpow u half p \<noteq> pm1 mod p" if "u \<in> {z..<w'}" for u
      using that w(5) False by (cases "u = z") auto
    moreover have "search_non_residue half pm1 p z = Some w'"
      using False w(1) by (subst search_non_residue.simps) simp
    ultimately show ?thesis
      using w by (intro exI [of _ w']) auto
  qed
qed

lemma order_search_eq:
  "i < m \<Longrightarrow> order_search p m tmp i =
    Some (if squarings p m tmp i = m then None else Some (squarings p m tmp i))"
proof (induction p m tmp i rule: squarings.induct)
  case (1 p m tmp i)
  show ?case
  proof (cases "tmp \<noteq> 1 \<and> i + 1 \<noteq> m")
    case True
    with 1 show ?thesis
      by (subst order_search.simps, subst (1 2) squarings.simps) simp
  next
    case False
    then consider "tmp = 1" | "tmp \<noteq> 1" "i + 1 = m"
      by blast
    then show ?thesis
    proof cases
      case 1
      with \<open>i < m\<close> show ?thesis
        by (subst order_search.simps, subst (1 2) squarings.simps) simp
    next
      case 2
      then have "squarings p m tmp i = m"
        by (subst squarings.simps, subst squarings.simps) simp
      with 2 show ?thesis
        by (subst order_search.simps) simp
    qed
  qed
qed

lemma squarings_ge: "i \<le> squarings p m tmp i"
proof (induction p m tmp i rule: squarings.induct)
  case (1 p m tmp i)
  then show ?case
    by (subst squarings.simps) (auto intro: order_trans [of i "i + 1"])
qed

lemma squarings_pos: "t \<noteq> 1 \<Longrightarrow> 0 < m \<Longrightarrow> 0 < squarings p m t 0"
  using squarings_ge [of 1 p m "t * t mod p"] by (subst squarings.simps) simp

text \<open>The two implementations of the main loop agree, on units and for at most 32 factors of two.\<close>

lemma shanks_loop_eq_tonelli:
  "prime_num p \<Longrightarrow> \<not> p dvd t \<Longrightarrow> \<not> p dvd c \<Longrightarrow> c < p \<Longrightarrow> 0 < m \<Longrightarrow> m \<le> 32 \<Longrightarrow>
    shanks_loop p m c t r = Some (tonelli p m c t r)"
proof (induction m arbitrary: c t r rule: less_induct)
  case (less m)
  define i where "i = squarings p m t 0"
  show ?case
  proof (cases "t = 1 \<or> i = m")
    case True
    moreover have "t \<noteq> 0"
      using less.prems(2) by (metis dvd_0_right)
    ultimately show ?thesis
      using less.prems order_search_eq [of 0 m p t]
      by (subst shanks_loop.simps, subst tonelli.simps) (auto simp: i_def)
  next
    case False
    define b where "b = modpow c (2 ^ (m - Suc i)) p"
    have b: "b = ((\<lambda>b. b * b mod p) ^^ (m - Suc i)) c" "\<not> p dvd b"
      using less.prems prime_dvd_power [OF less.prems(1)]
      by (auto simp: b_def modpow_def iterated_square dvd_mod_iff)
    have i: "0 < i" "i < m"
      using False squarings_pos [of t m p] squarings_le [of 0 m p t] less.prems(5) by (auto simp: i_def)
    have step: "shanks_loop p i (b * b mod p) (t * (b * b mod p) mod p) (r * b mod p) =
        Some (tonelli p i (b * b mod p) (t * (b * b mod p) mod p) (r * b mod p))"
      using less.prems i b(2) prime_num_gt_1 [OF less.prems(1)]
      by (intro less.IH) (auto simp: dvd_mod_iff prime_dvd_mult)
    have t: "(t * b mod p) * b mod p = t * (b * b mod p) mod p"
      by (simp add: mod_mult_left_eq mod_mult_right_eq ac_simps)
    have "order_search p m t 0 = Some (Some i)"
      using order_search_eq [of 0 m p t] False less.prems(5) by (simp add: i_def)
    moreover have "t \<noteq> 0"
      using less.prems(2) by (metis dvd_0_right)
    moreover have "(m + 2 ^ 32 - i - 1) mod 32 = m - Suc i"
    proof -
      have "m + 2 ^ 32 - i - 1 = (m - Suc i) + 32 * 2 ^ 27"
        using i by simp
      then have "(m + 2 ^ 32 - i - 1) mod 32 = (m - Suc i) mod 32"
        by (simp only: mod_mult_self2)
      with less.prems(6) i show ?thesis
        by simp
    qed
    ultimately show ?thesis
      using False step
      by (subst shanks_loop.simps, subst tonelli.simps)
        (simp add: i_def [symmetric] b(1) [symmetric] b_def [symmetric] t Let_def)
  qed
qed

section \<open>The square root decides squares\<close>

lemma power_of_two_dvd: "\<not> 2 ^ n dvd q * 2 ^ k \<Longrightarrow> k < (n::nat)"
  for q :: nat
  by (meson dvd_mult le_imp_power_dvd not_less)

lemma tonelli_shanks_correct:
  assumes p: "prime_num p" "p mod 2 = 1" and two: "\<not> 2 ^ 33 dvd p - 1" and x: "x < p"
  shows "if is_square p x then \<exists>s. tonelli_shanks x p = Inr (Some s) \<and> s < p \<and> s * s mod p = x
    else tonelli_shanks x p = Inr None"
proof (cases "x = 0")
  case True
  with x have "is_square p x"
    unfolding is_square_def by (intro bexI [of _ 0]) simp_all
  with True x show ?thesis
    by (simp add: tonelli_shanks_def)
next
  case False
  let ?half = "(p - 1) div 2"
  have p1: "1 < p"
    by (rule prime_num_gt_1 [OF p(1)])
  have nd: "\<not> p dvd x"
    using False x by (auto dest: dvd_imp_le)
  show ?thesis
  proof (cases "x ^ ?half mod p = 1")
    case nonres: False
    have "\<not> is_square p x"
    proof
      assume "is_square p x"
      then obtain s where "s * s mod p = x mod p"
        by (auto simp: is_square_def)
      from square_legendre [OF p this] nd nonres show False
        by simp
    qed
    with False p1 nonres show ?thesis
      by (simp add: tonelli_shanks_def sub_big_def modpow_def)
  next
    case True
    obtain q k where qk: "strip_twos (p - 1) 0 = Some (q, k)" "q mod 2 = 1" "p - 1 = q * 2 ^ k"
      using strip_twos_total [of "p - 1" 0] p1 by auto
    have "0 < k"
      using qk p p1 by (cases k) (simp_all, presburger)
    have "k \<le> 32"
      using power_of_two_dvd [OF two [unfolded qk(3)]] by simp
    have half: "q * 2 ^ (k - 1) = ?half"
      using qk(3) \<open>0 < k\<close> by (cases k) simp_all
    obtain z where z: "search_non_residue ?half (p - 1) p 2 = Some z" "z ^ ?half mod p = p - 1"
      using nonresidue_exists [OF p] search_non_residue_least [of 2 _ ?half p "p - 1"] p1
      by (auto simp: modpow_def)
    define c t r where "c = z ^ q mod p" and "t = x ^ q mod p" and "r = x ^ ((q + 1) div 2) mod p"
    have m: "tonelli_shanks x p =
        (case shanks_loop p k c t r of None \<Rightarrow> Inl Diverged | Some r \<Rightarrow> Inr r)"
      using False True p1 qk(1) z(1)
      by (simp add: tonelli_shanks_def sub_big_def modpow_def c_def t_def r_def)
    have legendre: "c ^ 2 ^ (k - 1) mod p = p - 1" "t ^ 2 ^ (k - 1) mod p = 1"
      using z(2) True half by (simp_all add: c_def t_def power_mod flip: power_mult)
    have r: "r * r mod p = x * t mod p"
    proof -
      have "(q + 1) div 2 + (q + 1) div 2 = Suc q"
        using qk(2) by presburger
      then have "x ^ ((q + 1) div 2) * x ^ ((q + 1) div 2) = x * x ^ q"
        by (simp only: power_add [symmetric] power_Suc)
      then show ?thesis
        by (simp only: r_def t_def mod_mult_left_eq mod_mult_right_eq)
    qed
    have bounds: "t < p" "c < p" "r < p"
      using p1 by (simp_all add: t_def c_def r_def)
    have units: "\<not> p dvd t" "\<not> p dvd c"
    proof -
      show "\<not> p dvd t"
        using nd prime_dvd_power [OF p(1)] by (auto simp: t_def dvd_mod_iff)
      show "\<not> p dvd c"
      proof
        assume "p dvd c"
        then have "p dvd c ^ 2 ^ (k - 1)"
          by (metis dvd_power dvd_trans pos2 zero_less_power)
        with legendre(1) p1 show False
          by (simp add: dvd_eq_mod_eq_0)
      qed
    qed
    obtain s where s: "tonelli p k c t r = Some s" "s * s mod p = x mod p"
      using tonelli_finds_root [OF p(1) \<open>0 < k\<close> legendre r bounds(1,2)] by blast
    have "s < p"
      using tonelli_bound [OF s(1) bounds(3)] .
    moreover have "is_square p x"
      using s(2) \<open>s < p\<close> by (auto simp: is_square_def)
    moreover have "tonelli_shanks x p = Inr (Some s)"
      using m shanks_loop_eq_tonelli [OF p(1) units bounds(2) \<open>0 < k\<close> \<open>k \<le> 32\<close>] s(1) by simp
    ultimately show ?thesis
      using s(2) x by simp
  qed
qed

section \<open>Property\<close>

lemma square_roots_differ_by_sign:
  assumes p: "prime_num p" and "s < p" "s' < p" "s * s mod p = s' * s' mod p"
  shows "s' = s \<or> s + s' = p"
  using assms(2-)
proof (induction s' s rule: linorder_wlog)
  case (le s' s)
  have "p dvd s * s - s' * s'"
    using le by (metis mod_eq_dvd_iff_nat mult_le_mono)
  also have "s * s - s' * s' = (s - s') * (s + s')"
  proof -
    obtain d where "s = s' + d"
      using le(1) by (auto simp: le_iff_add)
    then show ?thesis
      by (simp add: algebra_simps)
  qed
  finally have "p dvd s - s' \<or> p dvd s + s'"
    by (simp add: prime_dvd_mult [OF p])
  then show ?case
  proof
    assume "p dvd s - s'"
    with le have "s - s' = 0"
      by (metis dvd_imp_le less_imp_diff_less not_less zero_less_iff_neq_zero)
    with le show ?thesis
      by simp
  next
    assume "p dvd s + s'"
    then obtain k where k: "s + s' = p * k" ..
    with le have "p * k < p * 2"
      by linarith
    then have "k = 0 \<or> k = 1"
      by auto
    with k show ?thesis
      by auto
  qed
qed (auto simp: add.commute)

text \<open>C25. The two independent square roots of the code agree: modulo an odd prime with at most 32
  factors of two in \<open>p - 1\<close>, both end without a panic, both return \<^verbatim>\<open>None\<close> for the same
  numbers, and where they return roots these are equal or each other's negation.\<close>

theorem square_roots_agree:
  assumes "prime_num p" and "p mod 2 = 1" and "\<not> 2 ^ 33 dvd p - 1" and "x < p"
    and "find_non_qr_openvm fill p = Inr non_qr"
  shows "tonelli_shanks x p = Inr None \<and> mod_sqrt_openvm x p non_qr = Inr None \<or>
    (\<exists>s s'. tonelli_shanks x p = Inr (Some s) \<and> mod_sqrt_openvm x p non_qr = Inr (Some s') \<and>
      (s' = s \<or> s + s' = p))"
proof -
  note roots = tonelli_shanks_correct [OF assms(1-4)]
    mod_sqrt_openvm_square [OF assms(1,2) find_non_qr_openvm_correct [OF assms(1,2,5)], of x]
  show ?thesis
  proof (cases "is_square p x")
    case True
    with roots obtain s s' where "tonelli_shanks x p = Inr (Some s)" "s < p" "s * s mod p = x"
      "mod_sqrt_openvm x p non_qr = Inr (Some s')" "s' < p" "s' * s' mod p = x mod p"
      by auto
    with square_roots_differ_by_sign [OF assms(1), of s s'] assms(4) show ?thesis
      by auto
  next
    case False
    with roots show ?thesis
      by simp
  qed
qed

theorem square_roots_agree_witness:
  "tonelli_shanks 2 7 = Inr None \<and> mod_sqrt_openvm 2 7 6 = Inr None \<or>
    (\<exists>s s'. tonelli_shanks 2 7 = Inr (Some s) \<and> mod_sqrt_openvm 2 7 6 = Inr (Some s') \<and> (s' = s \<or> s + s' = 7))"
proof -
  have z: "find_non_qr_openvm (\<lambda>_ _. []) 7 = Inr 6"
    by (simp add: find_non_qr_openvm_def)
  show ?thesis
    by (rule square_roots_agree [OF prime_7 _ _ _ z]) simp_all
qed

end
