(* ===== verification/Ecc.thy ===== *)
theory Ecc
  imports Operands Config Shanks
begin

text \<open>
  The short-Weierstrass instructions of \<^verbatim>\<open>precompiles/src/ecc.rs\<close>: addition of points with
  different abscissas, doubling, decompression and a non-residue. Points are affine pairs in guest
  memory. The module has its own copies of the inverse and of the square root, which are shown to
  agree with those of \<^verbatim>\<open>modular.rs\<close>.
\<close>

section \<open>Coordinate arithmetic\<close>

function ext_gcd :: "int \<Rightarrow> int \<Rightarrow> int \<times> int \<times> int" where
  "ext_gcd a b =
     (if b = 0 then (a, 1, 0)
      else case ext_gcd b (a smod b) of (g, x1, y1) \<Rightarrow> (g, y1, x1 - (a sdiv b) * y1))"
  by pat_completeness auto
termination
  by (relation "measure (\<lambda>(a, b). nat \<bar>b\<bar>)") (simp_all add: abs_smod_less)

declare ext_gcd.simps [simp del]

definition ecc_mod_inv :: "nat \<Rightarrow> nat \<Rightarrow> nat option res" where
  "ecc_mod_inv a p =
     (if a = 0 then Inr None
      else case ext_gcd (int a) (int p) of (g, x, _) \<Rightarrow>
        if g \<noteq> 1 then Inr None
        else if p = 0 then Inl (Panicked ''attempt to divide by zero'')
        else Inr (Some (nat ((x smod int p + int p) smod int p))))"

definition modp_sub :: "nat \<Rightarrow> nat \<Rightarrow> nat \<Rightarrow> nat res" where
  "modp_sub a b p =
     bind_res (rem_big a p) (\<lambda>a. bind_res (rem_big b p) (\<lambda>b.
       if a \<ge> b then rem_big (a - b) p else bind_res (sub_big (p + a) b) (\<lambda>d. rem_big d p)))"

section \<open>Points\<close>

type_synonym point = "nat \<times> nat"

definition read_point :: "cpu \<Rightarrow> u32 \<Rightarrow> nat \<Rightarrow> point" where
  "read_point c ptr n = (let x = read_le c ptr n; y = read_le c (ptr + of_nat n) n in (x, y))"

definition write_point :: "cpu \<Rightarrow> u32 \<Rightarrow> point \<Rightarrow> nat \<Rightarrow> cpu" where
  "write_point c ptr p n = write_le (write_le c ptr (fst p) n) (ptr + of_nat n) (snd p) n"

definition add_ne :: "curve_entry \<Rightarrow> point \<Rightarrow> point \<Rightarrow> point res" where
  "add_ne curve p1 p2 =
     (let p = ce_modulus curve in
      bind_res (modp_sub (fst p2) (fst p1) p) (\<lambda>dx.
      bind_res (modp_sub (snd p2) (snd p1) p) (\<lambda>dy.
      bind_res (ecc_mod_inv dx p) (\<lambda>found.
        case found of
          None \<Rightarrow> Inl (Panicked ''AddNe with equal x'')
        | Some inv_dx \<Rightarrow>
            bind_res (rem_big (dy * inv_dx) p) (\<lambda>lam.
            bind_res (rem_big (lam * lam) p) (\<lambda>lam_sq.
            bind_res (modp_sub lam_sq (fst p1) p) (\<lambda>d.
            bind_res (modp_sub d (fst p2) p) (\<lambda>x3.
            bind_res (modp_sub (fst p1) x3 p) (\<lambda>d.
            bind_res (rem_big (lam * d) p) (\<lambda>t.
            bind_res (modp_sub t (snd p1) p) (\<lambda>y3. Inr (x3, y3))))))))))))"

definition double :: "curve_entry \<Rightarrow> point \<Rightarrow> point res" where
  "double curve p1 =
     (let p = ce_modulus curve in
      bind_res (rem_big (fst p1 * fst p1) p) (\<lambda>x_sq.
      bind_res (rem_big (3 * x_sq + ce_a curve) p) (\<lambda>num.
      bind_res (rem_big (2 * snd p1) p) (\<lambda>den.
      bind_res (ecc_mod_inv den p) (\<lambda>found.
        case found of
          None \<Rightarrow> Inl (Panicked ''Double of point with y=0'')
        | Some inv_den \<Rightarrow>
            bind_res (rem_big (num * inv_den) p) (\<lambda>lam.
            bind_res (rem_big (lam * lam) p) (\<lambda>lam_sq.
            bind_res (rem_big (2 * fst p1) p) (\<lambda>two_x.
            bind_res (modp_sub lam_sq two_x p) (\<lambda>x3.
            bind_res (modp_sub (fst p1) x3 p) (\<lambda>d.
            bind_res (rem_big (lam * d) p) (\<lambda>t.
            bind_res (modp_sub t (snd p1) p) (\<lambda>y3. Inr (x3, y3)))))))))))))"

section \<open>The curve instructions\<close>

definition decompress :: "curve_entry \<Rightarrow> nat \<Rightarrow> u32 \<Rightarrow> u32 \<Rightarrow> nat res" where
  "decompress curve x parity pc =
     (let p = ce_modulus curve in
      bind_res (rem_big (x * x) p) (\<lambda>x_sq.
      bind_res (rem_big (x_sq * x) p) (\<lambda>x_cu.
      bind_res (rem_big (ce_a curve * x) p) (\<lambda>ax.
      bind_res (rem_big (x_cu + ax + ce_b curve) p) (\<lambda>rhs.
      bind_res (tonelli_shanks rhs p) (\<lambda>found.
        case found of
          None \<Rightarrow> Inl (Failed (CustomOp (''SW HintDecompress: no sqrt for x on '' @ ce_name curve @
            '' at pc=0x'' @ fmt_08x pc)))
        | Some y \<Rightarrow>
            let y_parity = y mod 2 \<noteq> 0 in
            if (if y_parity then 1 else 0) = parity then Inr y else sub_big p y))))))"

definition do_sw_op :: "cpu \<Rightarrow> u32 \<Rightarrow> curve_entry \<Rightarrow> u32 \<Rightarrow> unit res \<times> cpu" where
  "do_sw_op c insn curve op =
     (let n = ce_coord_bytes curve;
          out = read_reg c (rd insn);
          a_ptr = read_reg c (rs1 insn);
          b_ptr = read_reg c (rs2 insn)
      in if op = SW_ADD_NE then
          let p1 = read_point c a_ptr n; p2 = read_point c b_ptr n
          in compute (add_ne curve p1 p2) c (\<lambda>r c. (Inr (), write_point c out r n))
        else if op = SW_DOUBLE then
          let p1 = read_point c a_ptr n
          in compute (double curve p1) c (\<lambda>r c. (Inr (), write_point c out r n))
        else if op = SW_SETUP then (Inr (), c)
        else if op = SW_HINT_DECOMPRESS then
          let x = read_le c a_ptr n;
              parity = read_reg c (rs2 insn) AND 1
          in compute (decompress curve x parity (cpu_pc c)) c (\<lambda>final_y c. (Inr (), write_le c out final_y n))
        else if op = SW_HINT_NON_QR then
          compute (sub_big (ce_modulus curve) 1) c (\<lambda>pm1 c.
            case search_non_residue (pm1 div 2) pm1 (ce_modulus curve) 2 of
              None \<Rightarrow> (Inl Diverged, c)
            | Some z \<Rightarrow> (Inr (), write_le c out z n))
        else (Inl (Failed (CustomOp (''unknown SW op='' @ fmt_dec (unat op) @ '' curve='' @
          ce_name curve @ '' at pc=0x'' @ fmt_08x (cpu_pc c)))), c))"

definition handle_sw :: "precompile_handler \<Rightarrow> cpu \<Rightarrow> u32 \<Rightarrow> unit res \<times> cpu" where
  "handle_sw h c insn =
     (let f7 = drop_bit 25 insn AND 0x7f;
          idx = unat (f7 div SW_MAX_KINDS);
          op = f7 mod SW_MAX_KINDS
      in if \<not> idx < length (curves h) then
           (Inl (Failed (CustomOp (''SW: curve_idx '' @ fmt_dec idx @ '' out of range (have '' @
             fmt_dec (length (curves h)) @ '') at pc=0x'' @ fmt_08x (cpu_pc c)))), c)
         else do_sw_op c insn (curves h ! idx) op)"

section \<open>The coordinate arithmetic is the arithmetic of residues\<close>

lemma ext_gcd_eq: "ext_gcd a b = extended_gcd a b"
  by (induction a b rule: extended_gcd.induct) (subst ext_gcd.simps, subst extended_gcd.simps, simp)

lemma ecc_mod_inv_eq: "ecc_mod_inv a p = mod_inv a p"
  by (simp add: ecc_mod_inv_def mod_inv_def ext_gcd_eq)

lemma modp_sub_eq:
  assumes "0 < p"
  shows "modp_sub a b p = Inr (nat ((int a - int b) mod int p))"
proof -
  have less: "b mod p < p"
    using assms by simp
  let ?d = "if b mod p \<le> a mod p then a mod p - b mod p else p + a mod p - b mod p"
  have "int (?d mod p) = (int a - int b) mod int p"
  proof (cases "b mod p \<le> a mod p")
    case True
    then show ?thesis
      by (simp add: zmod_int of_nat_diff mod_diff_eq)
  next
    case False
    with less have "int ?d = int (a mod p) - int (b mod p) + int p"
      by (simp add: of_nat_diff)
    then show ?thesis
      by (simp add: zmod_int mod_diff_eq)
  qed
  then have "?d mod p = nat ((int a - int b) mod int p)"
    by (metis nat_int)
  with assms less show ?thesis
    by (auto simp: modp_sub_def rem_big_def sub_big_def)
qed

text \<open>What the curve formulas need of a subtraction and an inverse.\<close>

locale coordinate_arith =
  fixes sub :: "nat \<Rightarrow> nat \<Rightarrow> nat \<Rightarrow> nat res"
    and inverse_of :: "nat \<Rightarrow> nat \<Rightarrow> nat option res"
  assumes sub_law: "0 < p \<Longrightarrow> sub a b p = Inr (nat ((int a - int b) mod int p))"
    and inverse_law: "1 < p \<Longrightarrow>
      if coprime a p then (\<exists>i. inverse_of a p = Inr (Some i) \<and> i < p \<and> a * i mod p = 1)
      else inverse_of a p = Inr None"
begin

lemma sub_total: "0 < p \<Longrightarrow> \<exists>d. sub a b p = Inr d \<and> d < p \<and> int p dvd int d - (int a - int b)"
  using nat_mod_dvd_diff [of p "int a - int b"] by (simp add: sub_law nat_less_iff)

lemma sub_coprime: "0 < p \<Longrightarrow> sub a b p = Inr d \<Longrightarrow> coprime d p \<longleftrightarrow> coprime (int a - int b) (int p)"
  by (simp add: sub_law) (metis coprime_int_iff coprime_mod_left_iff int_nat_eq less_irrefl of_nat_0_less_iff
      pos_mod_sign)

text \<open>The slope of a line: the quotient of two differences.\<close>

lemma slope:
  assumes "1 < p" "inverse_of d p = Inr (Some i)"
    and "int p dvd int d - dx" "int p dvd int n - dy"
  shows "int p dvd int (n * i mod p) * dx - dy"
proof -
  have p: "0 < p"
    using assms(1) by simp
  have "d * i mod p = 1"
    using inverse_law [OF assms(1), of d] assms(2) by (auto split: if_splits)
  then have i: "int p dvd int d * int i - 1"
    using assms(1) by (metis mod_eq_dvd_iff mod_less of_nat_1 of_nat_mult zmod_int)
  have "int (n * i mod p) * dx - dy = dx * (int (n * i mod p) - int (n * i)) +
      (int n * (int d * int i - 1) - int n * int i * (int d - dx) + (int n - dy))"
    by (simp add: algebra_simps)
  then show ?thesis
    by (simp only: dvd_add [OF dvd_mult [OF mod_dvd_diff [OF p]]
      dvd_add [OF dvd_diff [OF dvd_mult [OF i] dvd_mult [OF assms(3)]] assms(4)]])
qed

end

interpretation ca: coordinate_arith modp_sub ecc_mod_inv
  by unfold_locales (simp add: modp_sub_eq, simp only: ecc_mod_inv_eq, rule mod_inv_cases)

section \<open>Lines\<close>

definition on_curve :: "curve_entry \<Rightarrow> point \<Rightarrow> bool" where
  "on_curve e pt \<longleftrightarrow> snd pt * snd pt mod ce_modulus e =
     (fst pt ^ 3 + ce_a e * fst pt + ce_b e) mod ce_modulus e"

text \<open>The point \<open>r\<close> is the reflection of the third intersection of a cubic with the line through
  \<open>pt\<close> of slope \<open>dy / dx\<close>, when the other two have the abscissas of \<open>pt\<close> and \<open>x2\<close>.\<close>

definition third_point :: "nat \<Rightarrow> int \<Rightarrow> int \<Rightarrow> point \<Rightarrow> nat \<Rightarrow> point \<Rightarrow> bool" where
  "third_point p dx dy pt x2 r \<longleftrightarrow> fst r < p \<and> snd r < p \<and>
     int p dvd (int (fst r) + int (fst pt) + int x2) * dx ^ 2 - dy ^ 2 \<and>
     int p dvd (int (snd r) + int (snd pt)) * dx + dy * (int (fst r) - int (fst pt))"

lemma on_curve_dvd:
  "on_curve e (x, y) \<longleftrightarrow>
     int (ce_modulus e) dvd int y ^ 2 - (int x ^ 3 + int (ce_a e) * int x + int (ce_b e))"
  unfolding on_curve_def
  by (simp add: mod_eq_dvd_iff [symmetric] power2_eq_square)
    (metis (mono_tags) of_nat_add of_nat_eq_iff of_nat_mult of_nat_power zmod_int)

text \<open>The points of a line: with slope \<open>l\<close>, the formulas of the code give the third point.\<close>

lemma line_third_point:
  fixes p x1 y1 x2 x3 y3 :: nat and l dx dy :: int
  assumes l: "int p dvd l * dx - dy"
    and x3: "int p dvd int x3 - (l ^ 2 - int x1 - int x2)" and y3: "int p dvd int y3 - (l * (int x1 - int x3) - int y1)"
    and "x3 < p" "y3 < p"
  shows "third_point p dx dy (x1, y1) x2 (x3, y3)"
proof -
  have "(int x3 + int x1 + int x2) * dx ^ 2 - dy ^ 2 =
      dx ^ 2 * (int x3 - (l ^ 2 - int x1 - int x2)) + (l * dx + dy) * (l * dx - dy)"
    by algebra
  moreover have "(int y3 + int y1) * dx + dy * (int x3 - int x1) =
      dx * (int y3 - (l * (int x1 - int x3) - int y1)) + (int x1 - int x3) * (l * dx - dy)"
    by algebra
  ultimately show ?thesis
    using assms(4,5) dvd_add [OF dvd_mult [OF x3] dvd_mult [OF l]] dvd_add [OF dvd_mult [OF y3] dvd_mult [OF l]]
    by (simp add: third_point_def)
qed

text \<open>The cubic through the third point: for a chord and for a tangent.\<close>

lemma chord_identity:
  fixes x1 y1 x2 y2 l a b x3 y3 :: int
  assumes "x3 = l ^ 2 - x1 - x2" "y3 = l * (x1 - x3) - y1"
  shows "(x2 - x1) * (y3 ^ 2 - (x3 ^ 3 + a * x3 + b)) =
    (x2 - x1) * (y1 ^ 2 - (x1 ^ 3 + a * x1 + b)) + (x3 - x1) *
      ((y2 ^ 2 - (x2 ^ 3 + a * x2 + b)) - (y1 ^ 2 - (x1 ^ 3 + a * x1 + b)) +
       (l * (x2 - x1) - (y2 - y1)) * (l * (x2 - x1) + y2 + y1))"
  unfolding assms by algebra

lemma tangent_identity:
  fixes x1 y1 l a b x3 y3 :: int
  assumes "x3 = l ^ 2 - x1 - x1" "y3 = l * (x1 - x3) - y1"
  shows "y3 ^ 2 - (x3 ^ 3 + a * x3 + b) =
    (y1 ^ 2 - (x1 ^ 3 + a * x1 + b)) + (x3 - x1) * (l * (2 * y1) - (3 * x1 ^ 2 + a))"
  unfolding assms by algebra

lemma same_residue_dvd_diff: "q dvd x - x' \<Longrightarrow> q dvd x ^ n - x' ^ n" for q x x' :: int
  by (metis mod_eq_dvd_iff power_mod)

lemma on_curve_shift:
  fixes q x y x' y' a b :: int
  assumes "q dvd x - x'" "q dvd y - y'" "q dvd y' ^ 2 - (x' ^ 3 + a * x' + b)"
  shows "q dvd y ^ 2 - (x ^ 3 + a * x + b)"
proof -
  have "y ^ 2 - (x ^ 3 + a * x + b) = ((y ^ 2 - y' ^ 2) - ((x ^ 3 - x' ^ 3) + a * (x - x'))) +
      (y' ^ 2 - (x' ^ 3 + a * x' + b))"
    by algebra
  then show ?thesis
    by (simp only: dvd_add [OF dvd_diff [OF same_residue_dvd_diff [OF assms(2)]
      dvd_add [OF same_residue_dvd_diff [OF assms(1)] dvd_mult [OF assms(1)]]] assms(3)])
qed

text \<open>The third point of a chord or a tangent of the curve lies on the curve.\<close>

lemma chord_on_curve:
  fixes q x1 y1 x2 y2 l a b x3 y3 :: int
  assumes "q dvd y1 ^ 2 - (x1 ^ 3 + a * x1 + b)" "q dvd y2 ^ 2 - (x2 ^ 3 + a * x2 + b)"
    and "q dvd l * (x2 - x1) - (y2 - y1)" "coprime (x2 - x1) q"
    and "x3 = l ^ 2 - x1 - x2" "y3 = l * (x1 - x3) - y1"
  shows "q dvd y3 ^ 2 - (x3 ^ 3 + a * x3 + b)"
proof -
  have "q dvd (x2 - x1) * (y3 ^ 2 - (x3 ^ 3 + a * x3 + b))"
    unfolding chord_identity [OF assms(5,6), of _ _ y2]
    by (intro dvd_add [OF dvd_mult [OF assms(1)] dvd_mult] dvd_add [OF dvd_diff [OF assms(2,1)] dvd_mult2 [OF assms(3)]])
  then show ?thesis
    using assms(4) by (simp add: coprime_commute coprime_dvd_mult_right_iff)
qed

lemma tangent_on_curve:
  fixes q x1 y1 l a b x3 y3 :: int
  assumes "q dvd y1 ^ 2 - (x1 ^ 3 + a * x1 + b)" "q dvd l * (2 * y1) - (3 * x1 ^ 2 + a)"
    and "x3 = l ^ 2 - x1 - x1" "y3 = l * (x1 - x3) - y1"
  shows "q dvd y3 ^ 2 - (x3 ^ 3 + a * x3 + b)"
  unfolding tangent_identity [OF assms(3,4)] by (rule dvd_add [OF assms(1) dvd_mult [OF assms(2)]])

text \<open>The two formulas of the code, from a slope on.\<close>

lemma third_point_on_curve:
  fixes p x1 y1 x2 x3 y3 :: nat and l a b :: int
  assumes "int p dvd (l * (int x1 - (l ^ 2 - int x1 - int x2)) - int y1) ^ 2 -
      ((l ^ 2 - int x1 - int x2) ^ 3 + a * (l ^ 2 - int x1 - int x2) + b)"
    and x3: "int p dvd int x3 - (l ^ 2 - int x1 - int x2)" and y3: "int p dvd int y3 - (l * (int x1 - int x3) - int y1)"
  shows "int p dvd int y3 ^ 2 - (int x3 ^ 3 + a * int x3 + b)"
proof (rule on_curve_shift [OF x3 _ assms(1)])
  have "int y3 - (l * (int x1 - (l ^ 2 - int x1 - int x2)) - int y1) =
      (int y3 - (l * (int x1 - int x3) - int y1)) - l * (int x3 - (l ^ 2 - int x1 - int x2))"
    by algebra
  then show "int p dvd int y3 - (l * (int x1 - (l ^ 2 - int x1 - int x2)) - int y1)"
    by (simp only: dvd_diff [OF y3 dvd_mult [OF x3]])
qed

lemma mod_square_dvd: "0 < p \<Longrightarrow> int p dvd int (l * l mod p) - int l ^ 2"
  using mod_dvd_diff [of p "l * l"] by (simp add: power2_eq_square)

lemma reflected_ordinate:
  assumes "0 < p" "modp_sub x1 x3 p = Inr d" "modp_sub (l * d mod p) y1 p = Inr y3"
  shows "int p dvd int y3 - (int l * (int x1 - int x3) - int y1)"
proof -
  note d = ca.sub_total [OF assms(1), of x1 x3, unfolded assms(2)]
    ca.sub_total [OF assms(1), of "l * d mod p" y1, unfolded assms(3)]
  have "int y3 - (int l * (int x1 - int x3) - int y1) = (int y3 - (int (l * d mod p) - int y1)) +
      ((int (l * d mod p) - int (l * d)) + int l * (int d - (int x1 - int x3)))"
    by (simp add: algebra_simps)
  moreover have "int p dvd int y3 - (int (l * d mod p) - int y1)" "int p dvd int d - (int x1 - int x3)"
    using d by auto
  ultimately show ?thesis
    by (simp only: dvd_add [OF _ dvd_add [OF mod_dvd_diff [OF assms(1)] dvd_mult]])
qed

lemma add_ne_correct:
  fixes x1 y1 x2 y2 :: nat
  assumes p: "1 < ce_modulus e" and cop: "coprime (int x2 - int x1) (int (ce_modulus e))"
  shows "\<exists>r. add_ne e (x1, y1) (x2, y2) = Inr r \<and>
    third_point (ce_modulus e) (int x2 - int x1) (int y2 - int y1) (x1, y1) x2 r \<and>
    (on_curve e (x1, y1) \<longrightarrow> on_curve e (x2, y2) \<longrightarrow> on_curve e r)"
proof -
  let ?p = "ce_modulus e"
  have p0: "0 < ?p"
    using p by simp
  obtain dx where dx: "modp_sub x2 x1 ?p = Inr dx" "int ?p dvd int dx - (int x2 - int x1)"
    using ca.sub_total [OF p0] by blast
  obtain dy where dy: "modp_sub y2 y1 ?p = Inr dy" "int ?p dvd int dy - (int y2 - int y1)"
    using ca.sub_total [OF p0] by blast
  obtain i where i: "ecc_mod_inv dx ?p = Inr (Some i)"
    using ca.inverse_law [OF p, of dx] ca.sub_coprime [OF p0 dx(1)] cop by auto
  define l where "l = dy * i mod ?p"
  have l: "int ?p dvd int l * (int x2 - int x1) - (int y2 - int y1)"
    unfolding l_def by (rule ca.slope [OF p i dx(2) dy(2)])
  obtain s where s: "modp_sub (l * l mod ?p) x1 ?p = Inr s" "int ?p dvd int s - (int (l * l mod ?p) - int x1)"
    using ca.sub_total [OF p0] by blast
  obtain x3 where x3: "modp_sub s x2 ?p = Inr x3" "x3 < ?p" "int ?p dvd int x3 - (int s - int x2)"
    using ca.sub_total [OF p0] by blast
  obtain d where d: "modp_sub x1 x3 ?p = Inr d"
    using ca.sub_total [OF p0] by blast
  obtain y3 where y3: "modp_sub (l * d mod ?p) y1 ?p = Inr y3" "y3 < ?p"
    using ca.sub_total [OF p0] by blast
  have r: "add_ne e (x1, y1) (x2, y2) = Inr (x3, y3)"
    using p dx(1) dy(1) i s(1) x3(1) d y3(1)
    by (simp add: add_ne_def Let_def rem_big_def l_def [symmetric])
  have "int x3 - (int l ^ 2 - int x1 - int x2) = (int x3 - (int s - int x2)) +
      ((int s - (int (l * l mod ?p) - int x1)) + (int (l * l mod ?p) - int l ^ 2))"
    by simp
  then have e3: "int ?p dvd int x3 - (int l ^ 2 - int x1 - int x2)"
    by (simp only: dvd_add [OF x3(3) dvd_add [OF s(2) mod_square_dvd [OF p0]]])
  note f3 = reflected_ordinate [OF p0 d y3(1)]
  have "on_curve e (x3, y3)" if "on_curve e (x1, y1)" "on_curve e (x2, y2)"
    unfolding on_curve_dvd
    by (rule third_point_on_curve [OF chord_on_curve [OF that [unfolded on_curve_dvd] l cop refl refl] e3 f3])
  with r line_third_point [OF l e3 f3 x3(2) y3(2)] show ?thesis
    by blast
qed

lemma add_ne_panics:
  assumes p: "1 < ce_modulus e" and "\<not> coprime (int x2 - int x1) (int (ce_modulus e))"
  shows "add_ne e (x1, y1) (x2, y2) = Inl (Panicked ''AddNe with equal x'')"
proof -
  let ?p = "ce_modulus e"
  have p0: "0 < ?p"
    using p by simp
  obtain dx dy where d: "modp_sub x2 x1 ?p = Inr dx" "modp_sub y2 y1 ?p = Inr dy"
    using ca.sub_total [OF p0] by blast
  with ca.inverse_law [OF p, of dx] ca.sub_coprime [OF p0 d(1)] assms(2) show ?thesis
    by (simp add: add_ne_def)
qed

lemma double_correct:
  fixes x1 y1 :: nat
  assumes p: "1 < ce_modulus e" and cop: "coprime (2 * int y1) (int (ce_modulus e))"
  shows "\<exists>r. double e (x1, y1) = Inr r \<and>
    third_point (ce_modulus e) (2 * int y1) (3 * int x1 ^ 2 + int (ce_a e)) (x1, y1) x1 r \<and>
    (on_curve e (x1, y1) \<longrightarrow> on_curve e r)"
proof -
  let ?p = "ce_modulus e"
  have p0: "0 < ?p"
    using p by simp
  define num den where "num = (3 * (x1 * x1 mod ?p) + ce_a e) mod ?p" and "den = 2 * y1 mod ?p"
  have den: "int ?p dvd int den - 2 * int y1"
    using mod_dvd_diff [OF p0, of "2 * y1"] by (simp add: den_def)
  have "int num - (3 * int x1 ^ 2 + int (ce_a e)) =
      (int num - int (3 * (x1 * x1 mod ?p) + ce_a e)) + 3 * (int (x1 * x1 mod ?p) - int x1 ^ 2)"
    by simp
  then have num: "int ?p dvd int num - (3 * int x1 ^ 2 + int (ce_a e))"
    unfolding num_def by (simp only: dvd_add [OF mod_dvd_diff [OF p0] dvd_mult [OF mod_square_dvd [OF p0]]])
  have "coprime (2 * y1) ?p"
    using cop by (metis coprime_int_iff of_nat_mult of_nat_numeral)
  then obtain i where i: "ecc_mod_inv den ?p = Inr (Some i)"
    using ca.inverse_law [OF p, of den] p0 by (auto simp: den_def coprime_mod_left_iff)
  define l where "l = num * i mod ?p"
  have l: "int ?p dvd int l * (2 * int y1) - (3 * int x1 ^ 2 + int (ce_a e))"
    unfolding l_def by (rule ca.slope [OF p i den num])
  obtain x3 where x3: "modp_sub (l * l mod ?p) (2 * x1 mod ?p) ?p = Inr x3" "x3 < ?p"
      "int ?p dvd int x3 - (int (l * l mod ?p) - int (2 * x1 mod ?p))"
    using ca.sub_total [OF p0] by blast
  obtain d where d: "modp_sub x1 x3 ?p = Inr d"
    using ca.sub_total [OF p0] by blast
  obtain y3 where y3: "modp_sub (l * d mod ?p) y1 ?p = Inr y3" "y3 < ?p"
    using ca.sub_total [OF p0] by blast
  have r: "double e (x1, y1) = Inr (x3, y3)"
    using p i x3(1) d y3(1)
    by (simp add: double_def Let_def rem_big_def l_def [symmetric] num_def [symmetric] den_def [symmetric])
  have "int x3 - (int l ^ 2 - int x1 - int x1) = (int x3 - (int (l * l mod ?p) - int (2 * x1 mod ?p))) +
      ((int (l * l mod ?p) - int l ^ 2) - (int (2 * x1 mod ?p) - int (2 * x1)))"
    by simp
  then have e3: "int ?p dvd int x3 - (int l ^ 2 - int x1 - int x1)"
    by (simp only: dvd_add [OF x3(3) dvd_diff [OF mod_square_dvd [OF p0] mod_dvd_diff [OF p0]]])
  note f3 = reflected_ordinate [OF p0 d y3(1)]
  have "on_curve e (x3, y3)" if "on_curve e (x1, y1)"
    unfolding on_curve_dvd
    by (rule third_point_on_curve [OF tangent_on_curve [OF that [unfolded on_curve_dvd] l refl refl] e3 f3])
  with r line_third_point [OF l e3 f3 x3(2) y3(2)] show ?thesis
    by blast
qed

lemma double_panics:
  assumes p: "1 < ce_modulus e" and "\<not> coprime (2 * int y1) (int (ce_modulus e))"
  shows "double e (x1, y1) = Inl (Panicked ''Double of point with y=0'')"
proof -
  have "\<not> coprime (2 * y1 mod ce_modulus e) (ce_modulus e)"
    using assms by (metis coprime_int_iff coprime_mod_left_iff of_nat_mult of_nat_numeral not_less_zero)
  with p ca.inverse_law [OF p, of "2 * y1 mod ce_modulus e"] show ?thesis
    by (simp add: double_def Let_def rem_big_def)
qed

section \<open>Decompression\<close>

text \<open>The ordinate that decompression supplies for a parity: a root of that parity, or for the
  root zero the number zero or the modulus itself.\<close>

definition supplied_ordinate :: "curve_entry \<Rightarrow> nat \<Rightarrow> u32 \<Rightarrow> nat \<Rightarrow> bool" where
  "supplied_ordinate e x parity y \<longleftrightarrow> on_curve e (x, y) \<and>
     (if ce_modulus e dvd y then y = (if parity = 0 then 0 else ce_modulus e)
      else y < ce_modulus e \<and> y mod 2 = unat parity)"

definition curve_rhs :: "curve_entry \<Rightarrow> nat \<Rightarrow> nat" where
  "curve_rhs e x = (x ^ 3 + ce_a e * x + ce_b e) mod ce_modulus e"

lemma square_diff: "(a - b) * (a - b) - b * b = a * (a - 2 * b)" for a b :: int
  by (simp add: algebra_simps)

lemma mod_add3: "(a mod p + b mod p + c) mod p = (a + b + c) mod (p :: nat)"
  by (metis mod_add_eq mod_add_left_eq)

lemma negated_root:
  assumes "s \<le> p"
  shows "(p - s) * (p - s) mod p = s * s mod (p::nat)"
proof -
  have "int (p - s) = int p - int s"
    using assms by (simp add: of_nat_diff)
  then have "int ((p - s) * (p - s)) - int (s * s) = int p * (int p - 2 * int s)"
    by (simp only: of_nat_mult square_diff)
  then have "int p dvd int ((p - s) * (p - s)) - int (s * s)"
    by simp
  then show ?thesis
    by (rule mod_eqI_dvd)
qed

lemma negated_parity:
  assumes "s \<le> p" "p mod 2 = (1::nat)"
  shows "(p - s) mod 2 \<noteq> s mod 2"
proof -
  obtain d where "p = s + d"
    using assms(1) by (auto simp: le_iff_add)
  with assms(2) show ?thesis
    by simp presburger
qed

lemma supplied_root:
  assumes "ce_modulus e mod 2 = 1" "s < ce_modulus e" "s * s mod ce_modulus e = curve_rhs e x"
    and parity: "parity = 0 \<or> parity = 1"
  shows "supplied_ordinate e x parity
    (if (if s mod 2 \<noteq> 0 then 1 else 0) = parity then s else ce_modulus e - s)"
proof -
  let ?p = "ce_modulus e"
  have curve: "on_curve e (x, s)" "on_curve e (x, ?p - s)"
    using assms(2,3) negated_root [of s ?p] by (simp_all add: on_curve_def curve_rhs_def)
  show ?thesis
  proof (cases "s = 0")
    case True
    with curve parity show ?thesis
      by (auto simp: supplied_ordinate_def)
  next
    case False
    have units: "\<not> ?p dvd s" "\<not> ?p dvd ?p - s" "?p - s < ?p"
      using False assms(2) by (auto dest: dvd_imp_le)
    have "s mod 2 = unat parity" if "(if s mod 2 \<noteq> 0 then 1 else 0) = parity"
      using that parity by (auto split: if_splits)
    moreover have "(?p - s) mod 2 = unat parity" if "(if s mod 2 \<noteq> 0 then 1 else 0) \<noteq> parity"
      using that parity negated_parity [of s ?p] assms(1,2) by (auto split: if_splits)
    ultimately show ?thesis
      using curve units assms(2) by (simp add: supplied_ordinate_def)
  qed
qed

lemma decompress_correct:
  assumes p: "prime_num (ce_modulus e)" "ce_modulus e mod 2 = 1" and two: "\<not> 2 ^ 33 dvd ce_modulus e - 1"
    and parity: "parity = 0 \<or> parity = 1"
  shows "if is_square (ce_modulus e) (curve_rhs e x)
    then \<exists>y. decompress e x parity pc = Inr y \<and> supplied_ordinate e x parity y
    else decompress e x parity pc = Inl (Failed (CustomOp (''SW HintDecompress: no sqrt for x on '' @
      ce_name e @ '' at pc=0x'' @ fmt_08x pc)))"
proof -
  let ?p = "ce_modulus e"
  have p0: "0 < ?p"
    using prime_num_gt_1 [OF p(1)] by simp
  have rem: "rem_big v ?p = Inr (v mod ?p)" for v
    using p0 by (simp add: rem_big_def)
  have "((x * x mod ?p) * x mod ?p + ce_a e * x mod ?p + ce_b e) mod ?p = curve_rhs e x"
    by (simp only: curve_rhs_def power3_eq_cube mod_add3 mod_mult_left_eq)
  then have d: "decompress e x parity pc = bind_res (tonelli_shanks (curve_rhs e x) ?p) (\<lambda>found.
      case found of None \<Rightarrow> Inl (Failed (CustomOp (''SW HintDecompress: no sqrt for x on '' @ ce_name e @
          '' at pc=0x'' @ fmt_08x pc)))
      | Some y \<Rightarrow> if (if y mod 2 \<noteq> 0 then 1 else 0) = parity then Inr y else sub_big ?p y)"
    by (simp only: decompress_def Let_def rem bind_res_simps)
  have "curve_rhs e x < ?p"
    using p0 by (simp add: curve_rhs_def)
  note root = tonelli_shanks_correct [OF p two this]
  show ?thesis
  proof (cases "is_square ?p (curve_rhs e x)")
    case True
    with root obtain s where s: "tonelli_shanks (curve_rhs e x) ?p = Inr (Some s)" "s < ?p"
      "s * s mod ?p = curve_rhs e x"
      by auto
    let ?y = "if (if s mod 2 \<noteq> 0 then 1 else 0) = parity then s else ?p - s"
    have "decompress e x parity pc = Inr ?y"
      using d s by (simp add: sub_big_def)
    moreover have "supplied_ordinate e x parity ?y"
      by (rule supplied_root [OF p(2) s(2,3) parity])
    ultimately show ?thesis
      using True by auto
  next
    case False
    with root d show ?thesis
      by simp
  qed
qed

section \<open>Properties\<close>

lemma read_point_eq: "read_point c ptr n = operand_pair (cpu_mem c) ptr n"
  by (simp add: read_point_def operand_pair_def read_le_def)

lemma write_point_eq:
  "write_point c ptr r n = c\<lparr>cpu_mem := write_slice (cpu_mem c) ptr (pair_bytes n r)\<rparr>"
  by (simp add: write_point_def write_le_pair)

lemma curve_ok_modulus:
  assumes "curve_ok e"
  shows "1 < ce_modulus e" "ce_modulus e \<le> 256 ^ ce_coord_bytes e" "ce_modulus e mod 2 = 1"
  using assms by (simp_all add: curve_ok_def modulus_ok_def)

lemmas sw_codes = SW_ADD_NE_def SW_DOUBLE_def SW_SETUP_def SW_HINT_DECOMPRESS_def SW_HINT_NON_QR_def

text \<open>A point instruction that has a result stores it.\<close>

lemma stored_point:
  assumes "wf_memory (cpu_mem c)" "2 * ce_coord_bytes e \<le> 2 ^ 32" "curve_ok e"
    and "do_sw_op c insn e op = (Inr (), write_point c a r (ce_coord_bytes e))"
    and "fst r < ce_modulus e" "snd r < ce_modulus e"
  shows "\<exists>m. do_sw_op c insn e op = (Inr (), c\<lparr>cpu_mem := m\<rparr>) \<and>
    operand_pair m a (ce_coord_bytes e) = r \<and> writes_only (cpu_mem c) m a (2 * ce_coord_bytes e)"
  by (rule stored_pair [OF assms(1,2) curve_ok_modulus(2) [OF assms(3)] assms(5,6) assms(4) [unfolded write_point_eq]])

text \<open>C20. AddNe computes the chord law: for two points whose abscissas differ by a unit modulo the
  field characteristic, the destination receives the reduced reflection of the third intersection of
  the chord, whatever the destination overlaps; if both points are on the curve, so is the result.
  No byte outside the destination changes.\<close>

theorem ecc_addition:
  assumes "wf_memory (cpu_mem c)" and "curve_ok e" and "2 * ce_coord_bytes e \<le> 2 ^ 32"
    and "pt1 = operand_pair (cpu_mem c) (read_reg c (rs1 insn)) (ce_coord_bytes e)"
    and "pt2 = operand_pair (cpu_mem c) (read_reg c (rs2 insn)) (ce_coord_bytes e)"
    and "coprime (int (fst pt2) - int (fst pt1)) (int (ce_modulus e))"
  shows "\<exists>m r. do_sw_op c insn e SW_ADD_NE = (Inr (), c\<lparr>cpu_mem := m\<rparr>) \<and>
    r = operand_pair m (read_reg c (rd insn)) (ce_coord_bytes e) \<and>
    third_point (ce_modulus e) (int (fst pt2) - int (fst pt1)) (int (snd pt2) - int (snd pt1)) pt1 (fst pt2) r \<and>
    (on_curve e pt1 \<longrightarrow> on_curve e pt2 \<longrightarrow> on_curve e r) \<and>
    writes_only (cpu_mem c) m (read_reg c (rd insn)) (2 * ce_coord_bytes e)"
proof -
  obtain x1 y1 x2 y2 where pts: "pt1 = (x1, y1)" "pt2 = (x2, y2)"
    by (meson prod.exhaust)
  obtain r where r: "add_ne e pt1 pt2 = Inr r"
    "third_point (ce_modulus e) (int x2 - int x1) (int y2 - int y1) pt1 x2 r"
    "on_curve e pt1 \<longrightarrow> on_curve e pt2 \<longrightarrow> on_curve e r"
    using add_ne_correct [OF curve_ok_modulus(1) [OF assms(2)], of x2 x1 y1 y2] assms(6) by (auto simp: pts)
  have "do_sw_op c insn e SW_ADD_NE = (Inr (), write_point c (read_reg c (rd insn)) r (ce_coord_bytes e))"
    using r(1) by (simp add: do_sw_op_def read_point_eq assms(4,5) [symmetric])
  moreover have "fst r < ce_modulus e" "snd r < ce_modulus e"
    using r(2) by (simp_all add: third_point_def)
  ultimately show ?thesis
    using stored_point [OF assms(1,3,2), of insn SW_ADD_NE "read_reg c (rd insn)" r] r by (auto simp: pts)
qed

text \<open>C21. Double computes the tangent law: for a point whose ordinate is a unit modulo the field
  characteristic, the destination receives the reduced reflection of the second intersection of the
  tangent; if the point is on the curve, so is the result. No byte outside the destination
  changes.\<close>

theorem ecc_doubling:
  assumes "wf_memory (cpu_mem c)" and "curve_ok e" and "2 * ce_coord_bytes e \<le> 2 ^ 32"
    and "pt = operand_pair (cpu_mem c) (read_reg c (rs1 insn)) (ce_coord_bytes e)"
    and "coprime (2 * int (snd pt)) (int (ce_modulus e))"
  shows "\<exists>m r. do_sw_op c insn e SW_DOUBLE = (Inr (), c\<lparr>cpu_mem := m\<rparr>) \<and>
    r = operand_pair m (read_reg c (rd insn)) (ce_coord_bytes e) \<and>
    third_point (ce_modulus e) (2 * int (snd pt)) (3 * int (fst pt) ^ 2 + int (ce_a e)) pt (fst pt) r \<and>
    (on_curve e pt \<longrightarrow> on_curve e r) \<and>
    writes_only (cpu_mem c) m (read_reg c (rd insn)) (2 * ce_coord_bytes e)"
proof -
  obtain x1 y1 where pts: "pt = (x1, y1)"
    by (meson prod.exhaust)
  obtain r where r: "double e pt = Inr r"
    "third_point (ce_modulus e) (2 * int y1) (3 * int x1 ^ 2 + int (ce_a e)) pt x1 r"
    "on_curve e pt \<longrightarrow> on_curve e r"
    using double_correct [OF curve_ok_modulus(1) [OF assms(2)], of y1 x1] assms(5) by (auto simp: pts)
  have "do_sw_op c insn e SW_DOUBLE = (Inr (), write_point c (read_reg c (rd insn)) r (ce_coord_bytes e))"
    using r(1) by (simp add: do_sw_op_def read_point_eq assms(4) [symmetric] sw_codes)
  moreover have "fst r < ce_modulus e" "snd r < ce_modulus e"
    using r(2) by (simp_all add: third_point_def)
  ultimately show ?thesis
    using stored_point [OF assms(1,3,2), of insn SW_DOUBLE "read_reg c (rd insn)" r] r by (auto simp: pts)
qed

text \<open>C22. The panics of the point instructions: AddNe takes the host down, with any panic at all, exactly
  when the difference of the abscissas is not a unit, and Double exactly when twice the ordinate is
  not; on a prime field these are the points with equal abscissas and the points with ordinate zero.
  The panic is then that of the missing inverse, and nothing has been written; otherwise the
  instruction succeeds.\<close>

theorem ecc_panics_iff:
  assumes "curve_ok e"
    and "pt1 = operand_pair (cpu_mem c) (read_reg c (rs1 insn)) (ce_coord_bytes e)"
    and "pt2 = operand_pair (cpu_mem c) (read_reg c (rs2 insn)) (ce_coord_bytes e)"
  shows "((\<exists>msg. fst (do_sw_op c insn e SW_ADD_NE) = Inl (Panicked msg)) \<longleftrightarrow>
      \<not> coprime (int (fst pt2) - int (fst pt1)) (int (ce_modulus e))) \<and>
    (do_sw_op c insn e SW_ADD_NE = (Inl (Panicked ''AddNe with equal x''), c) \<or>
      fst (do_sw_op c insn e SW_ADD_NE) = Inr ()) \<and>
    ((\<exists>msg. fst (do_sw_op c insn e SW_DOUBLE) = Inl (Panicked msg)) \<longleftrightarrow>
      \<not> coprime (2 * int (snd pt1)) (int (ce_modulus e))) \<and>
    (do_sw_op c insn e SW_DOUBLE = (Inl (Panicked ''Double of point with y=0''), c) \<or>
      fst (do_sw_op c insn e SW_DOUBLE) = Inr ())"
proof -
  note p = curve_ok_modulus(1) [OF assms(1)]
  obtain x1 y1 x2 y2 where pts: "pt1 = (x1, y1)" "pt2 = (x2, y2)"
    by (meson prod.exhaust)
  have "if coprime (int x2 - int x1) (int (ce_modulus e)) then fst (do_sw_op c insn e SW_ADD_NE) = Inr ()
      else do_sw_op c insn e SW_ADD_NE = (Inl (Panicked ''AddNe with equal x''), c)"
    using add_ne_correct [OF p, of x2 x1 y1 y2] add_ne_panics [OF p, of x2 x1 y1 y2]
    by (auto simp: do_sw_op_def read_point_eq assms(2,3) [symmetric] pts)
  moreover have "if coprime (2 * int y1) (int (ce_modulus e)) then fst (do_sw_op c insn e SW_DOUBLE) = Inr ()
      else do_sw_op c insn e SW_DOUBLE = (Inl (Panicked ''Double of point with y=0''), c)"
    using double_correct [OF p, of y1 x1] double_panics [OF p, of y1 x1]
    by (auto simp: do_sw_op_def read_point_eq assms(2) [symmetric] pts sw_codes)
  ultimately show ?thesis
    unfolding pts fst_conv snd_conv by (auto split: if_splits)
qed

text \<open>A number of at most the modulus, stored and read back.\<close>

lemma curve_ok_bound: "curve_ok e \<Longrightarrow> y \<le> ce_modulus e \<Longrightarrow> y < 256 ^ ce_coord_bytes e"
proof (cases "ce_coord_bytes e")
  case (Suc k)
  assume e: "curve_ok e" and y: "y \<le> ce_modulus e"
  have "ce_modulus e \<noteq> 256 ^ ce_coord_bytes e"
  proof
    assume "ce_modulus e = 256 ^ ce_coord_bytes e"
    then have "ce_modulus e mod 2 = 0"
      unfolding Suc power_Suc by simp
    with curve_ok_modulus(3) [OF e] show False
      by simp
  qed
  with curve_ok_modulus(2) [OF e] y show ?thesis
    by simp
qed (auto simp: curve_ok_def modulus_ok_def)

lemma stored_number:
  assumes "wf_memory (cpu_mem c)" "curve_ok e" "y \<le> ce_modulus e"
    and "r = (Inr (), write_le c a y (ce_coord_bytes e))"
  shows "\<exists>m. r = (Inr (), c\<lparr>cpu_mem := m\<rparr>) \<and> le_val (read_vec m a (ce_coord_bytes e)) = y \<and>
    writes_only (cpu_mem c) m a (ce_coord_bytes e)"
proof -
  let ?n = "ce_coord_bytes e"
  have n: "?n \<le> 2 ^ 32"
    using assms(2) by (simp add: curve_ok_def modulus_ok_def)
  show ?thesis
    using read_le_write_slice [OF assms(1) n curve_ok_bound [OF assms(2,3)]]
      writes_only_write_slice [OF assms(1), of "le_bytes ?n y" a] n
    by (intro exI [of _ "write_slice (cpu_mem c) a (le_bytes ?n y)"]) (simp add: assms(4) write_le_slice)
qed

text \<open>C23. HintDecompress on a prime field: when the right-hand side of the curve equation is a square
  the destination receives an ordinate of the point, of the requested parity and reduced (for the
  ordinate zero and odd parity it receives the modulus itself), and no other byte changes; when it
  is not a square, the error is reported and nothing changes. The square root's loops end.\<close>

theorem ecc_decompression:
  assumes "wf_memory (cpu_mem c)" and "curve_ok e"
    and "prime_num (ce_modulus e)" and "\<not> 2 ^ 33 dvd ce_modulus e - 1"
    and "x = read_le c (read_reg c (rs1 insn)) (ce_coord_bytes e)"
  shows "if is_square (ce_modulus e) (curve_rhs e x)
    then \<exists>m y. do_sw_op c insn e SW_HINT_DECOMPRESS = (Inr (), c\<lparr>cpu_mem := m\<rparr>) \<and>
      y = le_val (read_vec m (read_reg c (rd insn)) (ce_coord_bytes e)) \<and>
      supplied_ordinate e x (read_reg c (rs2 insn) AND 1) y \<and>
      writes_only (cpu_mem c) m (read_reg c (rd insn)) (ce_coord_bytes e)
    else do_sw_op c insn e SW_HINT_DECOMPRESS = (Inl (Failed (CustomOp
      (''SW HintDecompress: no sqrt for x on '' @ ce_name e @ '' at pc=0x'' @ fmt_08x (cpu_pc c)))), c)"
proof -
  let ?par = "read_reg c (rs2 insn) AND 1"
  have "?par = 0 \<or> ?par = 1"
    by (metis and_one_eq mod2_eq_if)
  note d = decompress_correct [OF assms(3) curve_ok_modulus(3) [OF assms(2)] assms(4) this, of x "cpu_pc c"]
  have r: "do_sw_op c insn e SW_HINT_DECOMPRESS = compute (decompress e x ?par (cpu_pc c)) c
      (\<lambda>final_y c'. (Inr (), write_le c' (read_reg c (rd insn)) final_y (ce_coord_bytes e)))"
    by (simp add: do_sw_op_def Let_def assms(5) sw_codes)
  show ?thesis
  proof (cases "is_square (ce_modulus e) (curve_rhs e x)")
    case True
    with d obtain y where y: "decompress e x ?par (cpu_pc c) = Inr y" "supplied_ordinate e x ?par y"
      by auto
    have "y \<le> ce_modulus e"
      using y(2) by (auto simp: supplied_ordinate_def split: if_splits)
    moreover have "do_sw_op c insn e SW_HINT_DECOMPRESS =
        (Inr (), write_le c (read_reg c (rd insn)) y (ce_coord_bytes e))"
      by (simp add: r y(1))
    ultimately obtain m where "do_sw_op c insn e SW_HINT_DECOMPRESS = (Inr (), c\<lparr>cpu_mem := m\<rparr>)"
      "le_val (read_vec m (read_reg c (rd insn)) (ce_coord_bytes e)) = y"
      "writes_only (cpu_mem c) m (read_reg c (rd insn)) (ce_coord_bytes e)"
      using stored_number [OF assms(1,2)] by blast
    with True y(2) show ?thesis
      by auto
  next
    case False
    with d r show ?thesis
      by simp
  qed
qed

lemma legendre_one_square:
  assumes p: "prime_num p" "p mod 2 = 1" and z: "z ^ ((p - 1) div 2) mod p = p - 1"
    and "u ^ ((p - 1) div 2) mod p \<noteq> p - 1"
  shows "is_square p u"
  using mod_sqrt_openvm_correct [OF p z, of u] mod_sqrt_openvm_square [OF p z, of u] legendre_cases [OF p, of u]
    assms(4) by (auto split: if_splits)

text \<open>C24. HintNonQr ends on every prime field: the search by increments stops, and the destination
  receives the least number from 2 on that is not a square.\<close>

theorem ecc_non_residue:
  assumes "wf_memory (cpu_mem c)" and "curve_ok e" and "prime_num (ce_modulus e)"
  shows "\<exists>m z. do_sw_op c insn e SW_HINT_NON_QR = (Inr (), c\<lparr>cpu_mem := m\<rparr>) \<and>
    z = le_val (read_vec m (read_reg c (rd insn)) (ce_coord_bytes e)) \<and>
    2 \<le> z \<and> z < ce_modulus e \<and> \<not> is_square (ce_modulus e) z \<and>
    list_all (is_square (ce_modulus e)) [2..<z] \<and>
    writes_only (cpu_mem c) m (read_reg c (rd insn)) (ce_coord_bytes e)"
proof -
  let ?p = "ce_modulus e" and ?half = "(ce_modulus e - 1) div 2"
  note p = assms(3) curve_ok_modulus(3) [OF assms(2)]
  have p1: "1 < ?p"
    by (rule prime_num_gt_1 [OF p(1)])
  obtain w where w: "2 \<le> w" "w < ?p" "w ^ ?half mod ?p = ?p - 1"
    using nonresidue_exists [OF p] by blast
  then obtain z where z: "search_non_residue ?half (?p - 1) ?p 2 = Some z" "2 \<le> z" "z \<le> w"
    "z ^ ?half mod ?p = ?p - 1" "\<forall>u \<in> {2..<z}. u ^ ?half mod ?p \<noteq> ?p - 1"
    using search_non_residue_least [of 2 w ?half ?p "?p - 1"] p1 by (auto simp: modpow_def)
  have "\<not> is_square ?p z"
  proof
    assume "is_square ?p z"
    then have "?p dvd z \<or> z ^ ?half mod ?p = 1"
      using square_legendre [OF p] by (auto simp: is_square_def)
    moreover have "\<not> ?p dvd z"
      using z(2,3) w(2) by (auto dest: dvd_imp_le)
    ultimately show False
      using z(4) p1 p(2) by (cases "?p = 2") auto
  qed
  moreover have "list_all (is_square ?p) [2..<z]"
    using z(5) legendre_one_square [OF p z(4)] by (auto simp: list_all_iff)
  moreover have "do_sw_op c insn e SW_HINT_NON_QR =
      (Inr (), write_le c (read_reg c (rd insn)) z (ce_coord_bytes e))"
    using p1 z(1) by (simp add: do_sw_op_def sw_codes sub_big_def)
  moreover have "z < ?p"
    using z(3) w(2) by simp
  ultimately show ?thesis
    using stored_number [OF assms(1,2) less_imp_le, of z] z(2) by blast
qed

section \<open>Witnesses\<close>

text \<open>The curve \<open>y\<^sup>2 = x\<^sup>3 + 3\<close> modulo 7, and a processor with two of its points in memory.\<close>

definition curve7 :: curve_entry where
  "curve7 = \<lparr>ce_name = ''curve7'', ce_coord_bytes = 1, ce_modulus = 7, ce_a = 0, ce_b = 3\<rparr>"

definition points_cpu :: cpu where
  "points_cpu = example_cpu [(0x100, [1, 2]), (0x200, [2, 2])] [(10, 0x100), (11, 0x200)]"

definition point_insn :: u32 where
  "point_insn = R_type 0 11 10 1 10 0x2b"

lemma curve7_simps [simp]: "ce_modulus curve7 = 7" "ce_coord_bytes curve7 = 1" "ce_a curve7 = 0" "ce_b curve7 = 3"
  by (simp_all add: curve7_def)

lemma curve7_ok: "curve_ok curve7" "prime_num (ce_modulus curve7)" "\<not> 2 ^ 33 dvd ce_modulus curve7 - 1"
  by (simp_all add: curve_ok_def modulus_ok_def prime_7)

lemma points_cpu_facts:
  "wf_memory (cpu_mem points_cpu)"
  "(1, 2) = operand_pair (cpu_mem points_cpu) (read_reg points_cpu (rs1 point_insn)) (ce_coord_bytes curve7)"
  "(2, 2) = operand_pair (cpu_mem points_cpu) (read_reg points_cpu (rs2 point_insn)) (ce_coord_bytes curve7)"
  "1 = read_le points_cpu (read_reg points_cpu (rs1 point_insn)) (ce_coord_bytes curve7)"
proof -
  show "wf_memory (cpu_mem points_cpu)"
    by (simp add: points_cpu_def keeps_wf)
  have regs: "read_reg points_cpu (rs1 point_insn) = 0x100" "read_reg points_cpu (rs2 point_insn) = 0x200"
    unfolding points_cpu_def example_cpu_reg by code_simp+
  show "(1, 2) = operand_pair (cpu_mem points_cpu) (read_reg points_cpu (rs1 point_insn)) (ce_coord_bytes curve7)"
    "(2, 2) = operand_pair (cpu_mem points_cpu) (read_reg points_cpu (rs2 point_insn)) (ce_coord_bytes curve7)"
    "1 = read_le points_cpu (read_reg points_cpu (rs1 point_insn)) (ce_coord_bytes curve7)"
    unfolding regs by (simp_all add: points_cpu_def read_le_def operand_pair_def read_vec_def example_cpu_byte)
qed

theorem ecc_addition_witness:
  "\<exists>m r. do_sw_op points_cpu point_insn curve7 SW_ADD_NE = (Inr (), points_cpu\<lparr>cpu_mem := m\<rparr>) \<and>
    third_point 7 1 0 (1, 2) 2 r \<and> on_curve curve7 r"
proof -
  have "on_curve curve7 (1, 2)" "on_curve curve7 (2, 2)"
    by (simp_all add: on_curve_def)
  with ecc_addition [OF points_cpu_facts(1) curve7_ok(1) _ points_cpu_facts(2,3)] show ?thesis
    by (auto simp del: split_paired_Ex)
qed

theorem ecc_doubling_witness:
  "\<exists>m r. do_sw_op points_cpu point_insn curve7 SW_DOUBLE = (Inr (), points_cpu\<lparr>cpu_mem := m\<rparr>) \<and>
    third_point 7 4 3 (1, 2) 1 r \<and> on_curve curve7 r"
proof -
  have "on_curve curve7 (1, 2)" "coprime (4 :: int) 7"
    by (simp_all add: on_curve_def coprime_iff_gcd_eq_1 gcd_non_0_int)
  with ecc_doubling [OF points_cpu_facts(1) curve7_ok(1) _ points_cpu_facts(2)] show ?thesis
    by (auto simp del: split_paired_Ex)
qed

theorem ecc_panics_iff_witness:
  "fst (do_sw_op points_cpu point_insn curve7 SW_DOUBLE) = Inr ()"
proof -
  have "coprime (4 :: int) 7"
    by (simp add: coprime_iff_gcd_eq_1 gcd_non_0_int)
  with ecc_panics_iff [OF curve7_ok(1) points_cpu_facts(2,3)] show ?thesis
    by auto
qed

theorem ecc_decompression_witness:
  "\<exists>m y. do_sw_op points_cpu point_insn curve7 SW_HINT_DECOMPRESS = (Inr (), points_cpu\<lparr>cpu_mem := m\<rparr>) \<and>
    on_curve curve7 (1, y)"
proof -
  have "is_square 7 (curve_rhs curve7 1)"
    by (simp add: curve_rhs_def) code_simp
  with ecc_decompression [OF points_cpu_facts(1) curve7_ok points_cpu_facts(4)] show ?thesis
    by (auto simp: supplied_ordinate_def)
qed

theorem ecc_non_residue_witness:
  "\<exists>m z. do_sw_op points_cpu point_insn curve7 SW_HINT_NON_QR = (Inr (), points_cpu\<lparr>cpu_mem := m\<rparr>) \<and>
    2 \<le> z \<and> z < 7 \<and> \<not> is_square 7 z"
  using ecc_non_residue [OF points_cpu_facts(1) curve7_ok(1,2), of point_insn] by auto

end
