(* ===== verification/Tower.thy ===== *)
theory Tower
  imports Bignum Cpu Io
begin

text \<open>
  What the pairing hints use of the third-party arkworks crates. The shapes of the extension fields
  are the library's (an element of \<^verbatim>\<open>Fq12\<close> is two of \<^verbatim>\<open>Fq6\<close>, each three of \<^verbatim>\<open>Fq2\<close>, each two of
  \<^verbatim>\<open>Fq\<close>); the prime field and every operation on the tower are parameters, the fields of one
  record. \<^verbatim>\<open>Field::pow\<close> takes the 64-bit digits of its exponent, here the exponent itself.
\<close>

datatype 'q fq2 = Fq2 (fq2_c0: 'q) (fq2_c1: 'q)

datatype 'q fq6 = Fq6 (fq6_c0: "'q fq2") (fq6_c1: "'q fq2") (fq6_c2: "'q fq2")

datatype 'q fq12 = Fq12 (fq12_c0: "'q fq6") (fq12_c1: "'q fq6")

record 'q tower =
  fq_mod_order :: "u8 list \<Rightarrow> 'q"
  fq_bigint_le :: "'q \<Rightarrow> u8 list"
  fq2_zero :: "'q fq2"
  fq6_zero :: "'q fq6"
  fq12_one :: "'q fq12"
  fq12_mul :: "'q fq12 \<Rightarrow> 'q fq12 \<Rightarrow> 'q fq12"
  fq12_pow :: "'q fq12 \<Rightarrow> nat \<Rightarrow> 'q fq12"
  fq12_inverse :: "'q fq12 \<Rightarrow> 'q fq12 option"
  multi_miller_loop :: "('q \<times> 'q) list \<Rightarrow> ('q fq2 \<times> 'q fq2) list \<Rightarrow> 'q fq12"

text \<open>\<^verbatim>\<open>push_back\<close> of every byte of a sequence.\<close>

definition push_hint :: "precompile_handler \<Rightarrow> u8 list \<Rightarrow> precompile_handler" where
  "push_hint h bs = h\<lparr>io := (io h)\<lparr>hint_stream := hint_stream (io h) @ bs\<rparr>\<rparr>"

text \<open>\<^verbatim>\<open>BigUint::modinv\<close>: the inverse, if there is one.\<close>

definition modinv :: "nat \<Rightarrow> nat \<Rightarrow> nat option" where
  "modinv a m = (case extended_gcd (int a) (int m) of (g, x, _) \<Rightarrow>
     if g = 1 then Some (nat (x mod int m)) else None)"

end
