(* ===== verification/Bn254.thy ===== *)
theory Bn254
  imports Tower Format
begin

text \<open>
  The final exponentiation hint for BN254, \<^verbatim>\<open>precompiles/src/bn254_hint.rs\<close>: reading the points,
  the residue witness with its cube root by a modified Tonelli--Shanks loop, and the layout of the
  two elements of \<^verbatim>\<open>Fq12\<close> in the hint stream. Debug assertions are off, as in the release build.
\<close>

section \<open>Bytes and field elements\<close>

definition bn_read_fq :: "'q tower \<Rightarrow> cpu \<Rightarrow> u32 \<Rightarrow> 'q" where
  "bn_read_fq T c addr = fq_mod_order T (map (\<lambda>i. read_u8 (cpu_mem c) (addr + of_nat i)) [0..<32])"

definition bn_read_fq2 :: "'q tower \<Rightarrow> cpu \<Rightarrow> u32 \<Rightarrow> 'q fq2" where
  "bn_read_fq2 T c addr =
     (let c0 = bn_read_fq T c addr; c1 = bn_read_fq T c (addr + 32) in Fq2 c0 c1)"

definition bn_fq_to_le_bytes :: "'q tower \<Rightarrow> 'q \<Rightarrow> u8 list" where
  "bn_fq_to_le_bytes T x =
     (let bs = fq_bigint_le T x; n = min (length bs) 32 in take n bs @ replicate (32 - n) 0)"

definition bn_fq2_to_le_bytes :: "'q tower \<Rightarrow> 'q fq2 \<Rightarrow> u8 list" where
  "bn_fq2_to_le_bytes T x = bn_fq_to_le_bytes T (fq2_c0 x) @ bn_fq_to_le_bytes T (fq2_c1 x)"

definition bn_fq12_to_openvm_bytes :: "'q tower \<Rightarrow> 'q fq12 \<Rightarrow> u8 list" where
  "bn_fq12_to_openvm_bytes T f = concat (map (bn_fq2_to_le_bytes T)
     [fq6_c0 (fq12_c0 f), fq6_c0 (fq12_c1 f), fq6_c1 (fq12_c0 f), fq6_c1 (fq12_c1 f),
      fq6_c2 (fq12_c0 f), fq6_c2 (fq12_c1 f)])"

section \<open>The residue witness\<close>

definition bn_exp1 :: nat where
  "bn_exp1 = 4030969696062745741797811005853058291874379204406359442560681893891674450106959530046539719647151210908190211459382793062006703141168852426020468083171325367934590379984666859998399967609544754664110191464072930598755441160008826659219834762354786403012110463250131961575955268597858015384895449311534622125256548620283853223733396368939858981844663598065852816056384933498610930035891058807598891752166582271931875150099691598048016175399382213304673796601585080509443902692818733420199004555566113537482054218823936116647313678747500267068559627206777530424029211671772692598157901876223857571299238046741502089890557442500582300718504160740314926185458079985126192563953772118929726791041828902047546977272656240744693339962973939047279285351052107950250121751682659529260304162131862468322644288196213423232132152125277136333208005221619443705106431645884840489295409272576227859206166894626854018093044908314720"

definition bn_exp2 :: nat where
  "bn_exp2 = 149295173928249842288807815031594751550902933496531831205951181255247201855813315927649619246190785589192230054051214557852100116339587126889646966043382421034614458517950624444385183985538694617189266350521219651805757080000326913304438324531658755667115202342597480058368713651772519088329461085612393412046538837788290860138273939590365147475728281409846400594680923462911515927255224400281440435265428973034513894448136725853630228718495637529802733207466114092942366766400693830377740909465411612499335341437923559875826432546203713595131838044695464089778859691547136762894737106526809539677749557286722299625576201574095640767352005953344997266128077036486155280146436004404804695964512181557316554713802082990544197776406442186936269827816744738898152657469728130713344598597476387715653492155415311971560450078713968012341037230430349766855793764662401499603533676762082513303932107208402000670112774382027"

definition bn_r_inv :: nat where
  "bn_r_inv = 495819184011867778744231927046742333492451180917315223017345540833046880485481720031136878341141903241966521818658471092566752321606779256340158678675679238405722886654128392203338228575623261160538734808887996935946888297414610216445334190959815200956855428635568184508263913274453942864817234480763055154719338281461936129150171789463489422401982681230261920147923652438266934726901346095892093443898852488218812468761027620988447655860644584419583586883569984588067403598284748297179498734419889699245081714359110559679136004228878808158639412436468707589339209058958785568729925402190575720856279605832146553573981587948304340677613460685405477047119496887534881410757668344088436651291444274840864486870663164657544390995506448087189408281061890434467956047582679858345583941396130713046072603335601764495918026585155498301896749919393"

definition bn_m_inv :: nat where
  "bn_m_inv = 17840267520054779749190587238017784600702972825655245554504342129614427201836516118803396948809179149954197175783449826546445899524065131269177708416982407215963288737761615699967145070776364294542559324079147363363059480104341231360692143673915822421222230661528586799190306058519400019024762424366780736540525310403098758015600523609594113357130678138304964034267260758692953579514899054295817541844330584721967571697039986079722203518034173581264955381924826388858518077894154909963532054519350571947910625755075099598588672669612434444513251495355121627496067454526862754597351094345783576387352673894873931328099247263766690688395096280633426669535619271711975898132416216382905928886703963310231865346128293216316379527200971959980873989485521004596686352787540034457467115536116148612884807380187255514888720048664139404687086409399"

definition unity_root_27 :: "'q tower \<Rightarrow> 'q fq12" where
  "unity_root_27 T =
     (let u0 = 9483667112135124394372960210728142145589475128897916459350428495526310884707;
          u1 = 4534159768373982659291990808346042891252278737770656686799127720849666919525;
          u_c0 = fq_mod_order T (to_bytes_le u0);
          u_c1 = fq_mod_order T (to_bytes_le u1);
          u_coeffs = Fq2 u_c0 u_c1;
          c0 = Fq6 (fq2_zero T) u_coeffs (fq2_zero T);
          c1 = fq6_zero T
      in Fq12 c0 c1)"

text \<open>Repeated cubing up to one, with a 32-bit count; it does not end on an element whose order is
  not a power of three.\<close>

partial_function (option) ts_loop :: "'q tower \<Rightarrow> 'q fq12 \<Rightarrow> u32 \<Rightarrow> ('q fq12 \<times> u32) option" where
  "ts_loop T x3 t =
     (if x3 \<noteq> fq12_one T then
        let tmp = fq12_mul T x3 x3; x3 = fq12_mul T x3 tmp in ts_loop T x3 (t + 1)
      else Some (x3, t))"

partial_function (option) cube_root_loop ::
    "'q tower \<Rightarrow> 'q fq12 \<Rightarrow> 'q fq12 \<Rightarrow> 'q fq12 \<Rightarrow> u32 \<Rightarrow> 'q fq12 option" where
  "cube_root_loop T unity_root_27_exp2 c_inv x t =
     (if t \<noteq> 0 then
        let x = fq12_mul T x unity_root_27_exp2;
            x3 = fq12_mul T (fq12_mul T (fq12_mul T x x) x) c_inv
        in case ts_loop T x3 0 of
             None \<Rightarrow> None
           | Some (_, t) \<Rightarrow> cube_root_loop T unity_root_27_exp2 c_inv x t
      else Some x)"

text \<open>The multiple of \<open>f\<close> by a power of the root of unity that is a cubic residue.\<close>

definition cubic_residue_shift :: "'q tower \<Rightarrow> 'q fq12 \<Rightarrow> 'q fq12 \<times> 'q fq12" where
  "cubic_residue_shift T f =
     (let one = fq12_one T; unity_root_27 = unity_root_27 T; e1 = bn_exp1 in
      if fq12_pow T f e1 = one then (f, one)
      else
        let fu = fq12_mul T f unity_root_27 in
        if fq12_pow T fu e1 = one then (fu, unity_root_27)
        else (fq12_mul T fu unity_root_27, fq12_mul T unity_root_27 unity_root_27))"

definition bn_final_exp_hint :: "'q tower \<Rightarrow> 'q fq12 \<Rightarrow> ('q fq12 \<times> 'q fq12) res" where
  "bn_final_exp_hint T f =
     (case cubic_residue_shift T f of (c, u) \<Rightarrow>
        let unity_root_27 = unity_root_27 T;
            c = fq12_pow T c bn_r_inv;
            c = fq12_pow T c bn_m_inv;
            e2 = bn_exp2;
            unity_root_27_exp2 = fq12_pow T unity_root_27 e2;
            x = fq12_pow T c e2
        in case fq12_inverse T c of
             None \<Rightarrow> Inl (Panicked ''c is nonzero'')
           | Some c_inv \<Rightarrow>
               let x3 = fq12_mul T (fq12_mul T (fq12_mul T x x) x) c_inv in
               (case ts_loop T x3 0 of
                  None \<Rightarrow> Inl Diverged
                | Some (_, t) \<Rightarrow>
                    (case cube_root_loop T unity_root_27_exp2 c_inv x t of
                       None \<Rightarrow> Inl Diverged
                     | Some x \<Rightarrow> Inr (x, u))))"

section \<open>The instruction\<close>

definition bn_g1_points :: "'q tower \<Rightarrow> cpu \<Rightarrow> u32 \<Rightarrow> u32 \<Rightarrow> ('q \<times> 'q) list" where
  "bn_g1_points T c p_ptr p_len = map (\<lambda>i.
     let base = p_ptr + of_nat i * 64 in (bn_read_fq T c base, bn_read_fq T c (base + 32))) [0..<unat p_len]"

definition bn_g2_points :: "'q tower \<Rightarrow> cpu \<Rightarrow> u32 \<Rightarrow> u32 \<Rightarrow> ('q fq2 \<times> 'q fq2) list" where
  "bn_g2_points T c q_ptr q_len = map (\<lambda>i.
     let base = q_ptr + of_nat i * 128 in (bn_read_fq2 T c base, bn_read_fq2 T c (base + 64))) [0..<unat q_len]"

definition bn_hint_final_exp :: "'q tower \<Rightarrow> precompile_handler \<Rightarrow> cpu \<Rightarrow> u32
    \<Rightarrow> unit res \<times> precompile_handler" where
  "bn_hint_final_exp T h c insn =
     (let desc_p = read_reg c (drop_bit 15 insn AND 0x1f);
          desc_q = read_reg c (drop_bit 20 insn AND 0x1f);
          p_ptr = read_u32 (cpu_mem c) desc_p;
          p_len = read_u32 (cpu_mem c) (desc_p + 4);
          q_ptr = read_u32 (cpu_mem c) desc_q;
          q_len = read_u32 (cpu_mem c) (desc_q + 4)
      in if p_len \<noteq> q_len then
           (Inl (Failed (CustomOp (''BN254 HintFinalExp: P/Q length mismatch ('' @ fmt_dec (unat p_len) @
             '' vs '' @ fmt_dec (unat q_len) @ '') at pc=0x'' @ fmt_08x (cpu_pc c)))), h)
         else if p_len = 0 then
           let bytes = bn_fq12_to_openvm_bytes T (fq12_one T)
           in (Inr (), push_hint (push_hint h bytes) bytes)
         else
           let f = multi_miller_loop T (bn_g1_points T c p_ptr p_len) (bn_g2_points T c q_ptr q_len)
           in case bn_final_exp_hint T f of
                Inl e \<Rightarrow> (Inl e, h)
              | Inr (c, u) \<Rightarrow>
                  (Inr (), push_hint (push_hint h (bn_fq12_to_openvm_bytes T c)) (bn_fq12_to_openvm_bytes T u)))"

end
