(* ===== verification/Bls12.thy ===== *)
theory Bls12
  imports Tower Format
begin

text \<open>
  The final exponentiation hint for BLS12-381, \<^verbatim>\<open>precompiles/src/bls12_381_hint.rs\<close>.
\<close>

section \<open>Bytes and field elements\<close>

definition bls_read_fq :: "'q tower \<Rightarrow> cpu \<Rightarrow> u32 \<Rightarrow> 'q" where
  "bls_read_fq T c addr = fq_mod_order T (map (\<lambda>i. read_u8 (cpu_mem c) (addr + of_nat i)) [0..<48])"

definition bls_read_fq2 :: "'q tower \<Rightarrow> cpu \<Rightarrow> u32 \<Rightarrow> 'q fq2" where
  "bls_read_fq2 T c addr =
     (let c0 = bls_read_fq T c addr; c1 = bls_read_fq T c (addr + 48) in Fq2 c0 c1)"

definition fq_to_le48 :: "'q tower \<Rightarrow> 'q \<Rightarrow> u8 list" where
  "fq_to_le48 T x =
     (let bs = fq_bigint_le T x; n = min (length bs) 48 in take n bs @ replicate (48 - n) 0)"

definition bls_fq2_to_le :: "'q tower \<Rightarrow> 'q fq2 \<Rightarrow> u8 list" where
  "bls_fq2_to_le T x = fq_to_le48 T (fq2_c0 x) @ fq_to_le48 T (fq2_c1 x)"

definition bls_fq12_to_openvm_bytes :: "'q tower \<Rightarrow> 'q fq12 \<Rightarrow> u8 list" where
  "bls_fq12_to_openvm_bytes T f = concat (map (bls_fq2_to_le T)
     [fq6_c0 (fq12_c0 f), fq6_c0 (fq12_c1 f), fq6_c1 (fq12_c0 f), fq6_c1 (fq12_c1 f),
      fq6_c2 (fq12_c0 f), fq6_c2 (fq12_c1 f)])"

section \<open>The residue witness\<close>

definition poly_factor :: nat where
  "poly_factor = 5044125407647214251"

definition final_exp_factor :: nat where
  "final_exp_factor = 2366356426548243601069753987687709088104621721678962410379583120840019275952471579477684846670499039076873213559162845121989217658133790336552276567078487633052653005423051750848782286407340332979263075575489766963251914185767058009683318020965829271737924625612375201545022326908440428522712877494557944965298566001441468676802477524234094954960009227631543471415676620753242466901942121887152806837594306028649150255258504417829961387165043999299071444887652375514277477719817175923289019181393803729926249507024121957184340179467502106891835144220611408665090353102353194448552304429530104218473070114105759487413726485729058069746063140422361472585604626055492939586602274983146215294625774144156395553405525711143696689756441298365274341189385646499074862712688473936093315628166094221735056483459332831845007196600723053356837526749543765815988577005929923802636375670820616189737737304893769679803809426304143627363860243558537831172903494450556755190448279875942974830469855835666815454271389438587399739607656399812689280234103023464545891697941661992848552456326290792224091557256350095392859243101357349751064730561345062266850238821755009430903520645523345000326783803935359711318798844368754833295302563158150573540616830138810935344206231367357992991289265295323280"

definition bls_lambda :: nat where
  "bls_lambda = 4002409555221667393417789825735904156556882819939007885332058136124031650490837864442687629129030796414117214202539"

definition inv_pow_bu :: "'q tower \<Rightarrow> 'q fq12 \<Rightarrow> nat \<Rightarrow> 'q fq12 res" where
  "inv_pow_bu T base e =
     (case fq12_inverse T base of None \<Rightarrow> Inl (Panicked ''nonzero'') | Some b \<Rightarrow> Inr (fq12_pow T b e))"

definition bls_final_exp_hint :: "'q tower \<Rightarrow> 'q fq12 \<Rightarrow> ('q fq12 \<times> 'q fq12) res" where
  "bls_final_exp_hint T f =
     (let one = fq12_one T; p = final_exp_factor; r27 = 27; r10 = 10; poly = poly_factor;
          times27 = p * r27
      in case modinv times27 poly of
           None \<Rightarrow> Inl (Panicked ''inverse exists'')
         | Some inv27 \<Rightarrow>
             let times27_mod_poly = inv27 mod poly;
                 f_final_exp = fq12_pow T f p;
                 s_root = fq12_pow T f_final_exp r27
             in bind_res (if s_root = one then Inr one else inv_pow_bu T s_root times27_mod_poly)
               (\<lambda>root_pth_inv.
                  let s_root = fq12_pow T f_final_exp poly
                  in bind_res (if fq12_pow T s_root r27 = one then inv_pow_bu T s_root r10 else Inr one)
                    (\<lambda>root_27th_inv.
                       let s = fq12_mul T root_pth_inv root_27th_inv;
                           f_shifted = fq12_mul T f s
                       in case modinv bls_lambda p of
                            None \<Rightarrow> Inl (Panicked ''inverse exists'')
                          | Some lambda_inv \<Rightarrow> Inr (fq12_pow T f_shifted lambda_inv, s))))"

section \<open>The instruction\<close>

definition bls_g1_points :: "'q tower \<Rightarrow> cpu \<Rightarrow> u32 \<Rightarrow> u32 \<Rightarrow> ('q \<times> 'q) list" where
  "bls_g1_points T c p_ptr p_len = map (\<lambda>i.
     let base = p_ptr + of_nat i * 96 in (bls_read_fq T c base, bls_read_fq T c (base + 48))) [0..<unat p_len]"

definition bls_g2_points :: "'q tower \<Rightarrow> cpu \<Rightarrow> u32 \<Rightarrow> u32 \<Rightarrow> ('q fq2 \<times> 'q fq2) list" where
  "bls_g2_points T c q_ptr q_len = map (\<lambda>i.
     let base = q_ptr + of_nat i * 192 in (bls_read_fq2 T c base, bls_read_fq2 T c (base + 96))) [0..<unat q_len]"

definition bls_hint_final_exp :: "'q tower \<Rightarrow> precompile_handler \<Rightarrow> cpu \<Rightarrow> u32
    \<Rightarrow> unit res \<times> precompile_handler" where
  "bls_hint_final_exp T h c insn =
     (let desc_p = read_reg c (drop_bit 15 insn AND 0x1f);
          desc_q = read_reg c (drop_bit 20 insn AND 0x1f);
          p_ptr = read_u32 (cpu_mem c) desc_p;
          p_len = read_u32 (cpu_mem c) (desc_p + 4);
          q_ptr = read_u32 (cpu_mem c) desc_q;
          q_len = read_u32 (cpu_mem c) (desc_q + 4)
      in if p_len \<noteq> q_len then
           (Inl (Failed (CustomOp (''BLS12-381 HintFinalExp: P/Q length mismatch ('' @ fmt_dec (unat p_len) @
             '' vs '' @ fmt_dec (unat q_len) @ '') at pc=0x'' @ fmt_08x (cpu_pc c)))), h)
         else if p_len = 0 then
           let bytes = bls_fq12_to_openvm_bytes T (fq12_one T)
           in (Inr (), push_hint h (bytes @ bytes))
         else
           let f = multi_miller_loop T (bls_g1_points T c p_ptr p_len) (bls_g2_points T c q_ptr q_len)
           in case bls_final_exp_hint T f of
                Inl e \<Rightarrow> (Inl e, h)
              | Inr (c, s) \<Rightarrow>
                  (Inr (), push_hint (push_hint h (bls_fq12_to_openvm_bytes T c)) (bls_fq12_to_openvm_bytes T s)))"

end
