(* ===== verification/Pairing.thy ===== *)
theory Pairing
  imports Bn254 Bls12 Encoding
begin

text \<open>
  The pairing instruction of \<^verbatim>\<open>precompiles/src/pairing.rs\<close>, with the \<^verbatim>\<open>pairing\<close> feature on: the
  operation and the curve it selects. The two curves' field towers are parameters.
\<close>

definition handle_pairing :: "'b tower \<Rightarrow> 'l tower \<Rightarrow> precompile_handler \<Rightarrow> cpu \<Rightarrow> u32
    \<Rightarrow> unit res \<times> precompile_handler" where
  "handle_pairing B L h c insn =
     (let f7 = drop_bit 25 insn AND 0x7f;
          idx = unat (f7 div PAIRING_MAX_KINDS);
          op = f7 mod PAIRING_MAX_KINDS;
          name = (if idx < length (pairings h) then pairings h ! idx else ''<out-of-range>'')
      in if op \<noteq> 0 then
           (Inl (Failed (CustomOp (''pairing op='' @ fmt_dec (unat op) @
             '' (only HintFinalExp=0 is defined) for '' @ name @ '' at pc=0x'' @ fmt_08x (cpu_pc c)))), h)
         else if name = ''bn254'' then bn_hint_final_exp B h c insn
         else if name = ''bls12_381'' then bls_hint_final_exp L h c insn
         else (Inl (Failed (CustomOp (''unknown pairing curve '' @ name @ '' at pc=0x'' @
           fmt_08x (cpu_pc c)))), h))"

end
