(* ===== verification/Handler.thy ===== *)
theory Handler
  imports Int256 Hashes Fp2 Ecc Pairing
begin

text \<open>
  The dispatcher of the custom opcodes, \<^verbatim>\<open>PrecompileHandler\<close> of \<^verbatim>\<open>precompiles/src/lib.rs\<close> with all
  features on. Log output is not modelled. The third-party code the instructions call is one record
  of parameters: the seeded random bytes, the SHA-256 compression, and the two curves' field towers.
\<close>

section \<open>Dispatch\<close>

record ('b, 'l) externals =
  ext_fill :: "nat \<Rightarrow> nat \<Rightarrow> u8 list"
  ext_compress256 :: "u32 list \<Rightarrow> u8 list \<Rightarrow> u32 list"
  ext_bn254 :: "'b tower"
  ext_bls12_381 :: "'l tower"

text \<open>An instruction that only touches the processor, then \<open>Continue\<close>.\<close>

definition continue_with :: "precompile_handler \<Rightarrow> unit res \<times> cpu
    \<Rightarrow> step_outcome res \<times> cpu \<times> precompile_handler" where
  "continue_with h r = (case r of (Inl e, c) \<Rightarrow> (Inl e, c, h) | (Inr _, c) \<Rightarrow> (Inr Continue, c, h))"

text \<open>The loop of \<^verbatim>\<open>write_u8\<close> that stores the bytes read from the hint stream.\<close>

definition store_hint :: "precompile_handler \<Rightarrow> cpu \<Rightarrow> u32 \<Rightarrow> nat
    \<Rightarrow> step_outcome res \<times> cpu \<times> precompile_handler" where
  "store_hint h c dst_ptr n_bytes =
     (case read_hint_bytes n_bytes (io h) of (bs, i) \<Rightarrow>
        (Inr Continue, c\<lparr>cpu_mem := write_bytes_from (cpu_mem c) dst_ptr 0 bs\<rparr>, h\<lparr>io := i\<rparr>))"

definition handle_custom0 :: "('b, 'l) externals \<Rightarrow> u32 \<Rightarrow> u32 \<Rightarrow> cpu \<Rightarrow> precompile_handler
    \<Rightarrow> step_outcome res \<times> cpu \<times> precompile_handler" where
  "handle_custom0 X insn f3 c h =
     (if f3 = F3_TERMINATE then
        let code = read_reg c (rs1 insn) in (Inr (Terminated code), c, h)
      else if f3 = F3_HINT then
        let imm = imm_i insn AND 0xfff;
            dst_ptr = read_reg c (rd insn)
        in if imm = HINT_STOREW_IMM then store_hint h c dst_ptr 4
           else if imm = HINT_BUFFER_IMM then
             let len_words = read_reg c (rs1 insn) in store_hint h c dst_ptr (unat len_words * 4)
           else (Inl (Failed (CustomOp (''unknown HINT imm 0x'' @ fmt_x (unat imm) @
             '' at pc=0x'' @ fmt_08x (cpu_pc c)))), c, h)
      else if f3 = F3_REVEAL then
        let reg_val = read_reg c (rs1 insn);
            off = unat (read_reg c (rd insn) + (imm_i insn AND 0xfff))
        in (Inr Continue, c, h\<lparr>io := write_output (io h) off (to_le_bytes reg_val)\<rparr>)
      else if f3 = F3_PHANTOM then
        let imm = imm_i insn AND 0xfff
        in if imm = PHANTOM_HINT_INPUT then
             case hint_input (io h) of
               Inl e \<Rightarrow> (Inl (Failed (CustomOp (''HintInput at pc=0x'' @ fmt_08x (cpu_pc c) @ '': '' @ e))), c, h)
             | Inr i \<Rightarrow> (Inr Continue, c, h\<lparr>io := i\<rparr>)
           else (Inr Continue, c, h)
      else if f3 = F3_HASH then
        let f7 = funct7 insn
        in if f7 = F7_KECCAKF then continue_with h (do_keccakf c insn)
           else if f7 = F7_XORIN then continue_with h (do_xorin c insn)
           else if f7 = F7_SHA256_COMPRESS then
             continue_with h (do_sha256_compress (ext_compress256 X) c insn)
           else (Inl (Failed (CustomOp (''unknown hash funct7=0x'' @ fmt_x (unat f7) @
             '' at pc=0x'' @ fmt_08x (cpu_pc c)))), c, h)
      else if f3 = F3_INT256 then continue_with h (handle_int256 c insn)
      else if f3 = F3_BEQ256 then continue_with h (handle_beq256 c insn)
      else if f3 = F3_NATIVE_STOREW then (Inr Continue, c, h)
      else (Inl (Failed (CustomOp (''custom-0 unknown funct3=0b'' @ fmt_03b f3 @
        '' at pc=0x'' @ fmt_08x (cpu_pc c)))), c, h))"

definition handle_custom1 :: "('b, 'l) externals \<Rightarrow> u32 \<Rightarrow> u32 \<Rightarrow> cpu \<Rightarrow> precompile_handler
    \<Rightarrow> step_outcome res \<times> cpu \<times> precompile_handler" where
  "handle_custom1 X insn f3 c h =
     (if f3 = F3_MODULAR then
        (case handle_modular (ext_fill X) h c insn of
           (Inl e, c, h) \<Rightarrow> (Inl e, c, h)
         | (Inr _, c, h) \<Rightarrow> (Inr Continue, c, h))
      else if f3 = F3_COMPLEX then continue_with h (handle_complex h c insn)
      else if f3 = F3_SW then continue_with h (handle_sw h c insn)
      else if f3 = F3_PAIRING then
        (case handle_pairing (ext_bn254 X) (ext_bls12_381 X) h c insn of
           (Inl e, h) \<Rightarrow> (Inl e, c, h)
         | (Inr _, h) \<Rightarrow> (Inr Continue, c, h))
      else (Inl (Failed (CustomOp (''custom-1 funct3=0b'' @ fmt_03b f3 @ '' at pc=0x'' @
        fmt_08x (cpu_pc c) @ '' '' @ em_dash @ '' feature gated or unknown''))), c, h))"

definition handle :: "('b, 'l) externals \<Rightarrow> precompile_handler handler" where
  "handle X insn c h =
     (let opc = opcode insn;
          f3 = funct3 insn;
          pc = cpu_pc c
      in case (if opc = OPCODE_CUSTOM_0 then handle_custom0 X insn f3 c h
               else if opc = OPCODE_CUSTOM_1 then handle_custom1 X insn f3 c h
               else (Inl (Failed (IllegalInstruction (cpu_pc c) insn)), c, h)) of
           (Inl e, c, h) \<Rightarrow> (Inl e, c, h)
         | (Inr Continue, c, h) \<Rightarrow>
             (Inr Continue, if cpu_pc c = pc then c\<lparr>cpu_pc := pc + 4\<rparr> else c, h)
         | (Inr (Terminated code), c, h) \<Rightarrow> (Inr (Terminated code), c, h))"

section \<open>What every instruction keeps\<close>

text \<open>A handler's configuration is fixed when it is built.\<close>

definition same_tables :: "precompile_handler \<Rightarrow> precompile_handler \<Rightarrow> bool" where
  "same_tables h h' \<longleftrightarrow> moduli h' = moduli h \<and> curves h' = curves h \<and> complex h' = complex h \<and>
     pairings h' = pairings h"

text \<open>The contract of an instruction on the processor: a failure changes nothing, a success keeps the
  processor well formed, its step counter and its program counter.\<close>

definition kept :: "cpu \<Rightarrow> cpu \<Rightarrow> bool" where
  "kept c c' \<longleftrightarrow> wf_cpu c' \<and> cpu_steps c' = cpu_steps c \<and> cpu_pc c' = cpu_pc c"

definition insn_ok :: "cpu \<Rightarrow> unit res \<times> cpu \<Rightarrow> bool" where
  "insn_ok c r \<longleftrightarrow> (case fst r of Inl _ \<Rightarrow> snd r = c | Inr _ \<Rightarrow> kept c (snd r))"

named_theorems kept_rules \<open>what keeps the processor\<close>

lemma kept_refl [kept_rules]: "wf_cpu c \<Longrightarrow> kept c c"
  by (simp add: kept_def)

lemma kept_mem [kept_rules]: "wf_cpu c \<Longrightarrow> wf_memory m \<Longrightarrow> kept c (c\<lparr>cpu_mem := m\<rparr>)"
  by (simp add: kept_def wf_cpu_mem)

lemma kept_write_reg [kept_rules]: "wf_cpu c \<Longrightarrow> kept c (write_reg c r v)"
  using wf_write_reg [of c r v] by (simp add: kept_def write_reg_def)

lemma kept_write_le [kept_rules]: "wf_cpu c \<Longrightarrow> kept c (write_le c a v n)"
  by (simp add: write_le_slice kept_mem keeps_wf)

lemma kept_write_pair [kept_rules]: "wf_cpu c \<Longrightarrow> kept c (write_pair c a x y n)"
  by (simp add: write_pair_def write_le_pair kept_mem keeps_wf)

lemma kept_write_point [kept_rules]: "wf_cpu c \<Longrightarrow> kept c (write_point c a r n)"
  by (simp add: write_point_def write_le_pair kept_mem keeps_wf)

lemma insn_ok_simps [simp]:
  "insn_ok c (Inl e, c') \<longleftrightarrow> c' = c"
  "insn_ok c (Inr u, c') \<longleftrightarrow> kept c c'"
  by (simp_all add: insn_ok_def)

text \<open>An instruction's branches and host computations, followed one by one: the processor a failure
  leaves is the one the instruction has reached.\<close>

lemma insn_ok_rules:
  "insn_ok c (Inl e, c)"
  "kept c c' \<Longrightarrow> insn_ok c (Inr u, c')"
  "(\<And>v. insn_ok c (k v c)) \<Longrightarrow> insn_ok c (compute q c k)"
  "insn_ok c r \<Longrightarrow> insn_ok c s \<Longrightarrow> insn_ok c (if b then r else s)"
  "insn_ok c r \<Longrightarrow> (\<And>y. insn_ok c (f y)) \<Longrightarrow> insn_ok c (case x of None \<Rightarrow> r | Some y \<Rightarrow> f y)"
  by (auto simp: compute_def split: sum.split option.split)

lemma wf_fold: "(\<And>i m. wf_memory m \<Longrightarrow> wf_memory (f i m)) \<Longrightarrow> wf_memory m \<Longrightarrow> wf_memory (fold f xs m)"
  by (induction xs arbitrary: m) simp_all

lemma wf_write_words [keeps_wf]: "wf_memory m \<Longrightarrow> wf_memory (write_words m a k n ws)"
  by (simp add: write_words_def wf_fold keeps_wf)

lemma do_keccakf_ok: "wf_cpu c \<Longrightarrow> insn_ok c (do_keccakf c insn)"
  by (simp add: do_keccakf_def Let_def kept_mem keeps_wf)

lemma do_xorin_ok: "wf_cpu c \<Longrightarrow> insn_ok c (do_xorin c insn)"
  by (simp add: do_xorin_def Let_def kept_mem wf_fold keeps_wf)

lemma do_sha256_ok: "wf_cpu c \<Longrightarrow> insn_ok c (do_sha256_compress f c insn)"
  by (simp add: do_sha256_compress_def Let_def kept_mem keeps_wf)

lemma handle_int256_ok: "wf_cpu c \<Longrightarrow> insn_ok c (handle_int256 c insn)"
  by (auto simp: handle_int256_def Let_def write32_def keeps_wf intro!: kept_mem split: option.split)

lemma do_mod_op_ok: "wf_cpu c \<Longrightarrow> insn_ok c (do_mod_op c insn e op)"
  unfolding do_mod_op_def Let_def
  by (intro insn_ok_rules kept_rules)

lemma do_complex_op_ok: "wf_cpu c \<Longrightarrow> insn_ok c (do_complex_op c insn e op)"
  unfolding do_complex_op_def Let_def
  by (intro insn_ok_rules kept_rules)

lemma do_sw_op_ok: "wf_cpu c \<Longrightarrow> insn_ok c (do_sw_op c insn e op)"
  unfolding do_sw_op_def Let_def
  by (intro insn_ok_rules kept_rules)

lemma handle_complex_ok: "wf_cpu c \<Longrightarrow> insn_ok c (handle_complex h c insn)"
  by (simp add: handle_complex_def Let_def do_complex_op_ok)

lemma handle_sw_ok: "wf_cpu c \<Longrightarrow> insn_ok c (handle_sw h c insn)"
  by (simp add: handle_sw_def Let_def do_sw_op_ok)

text \<open>The instructions that also reach the handler's streams.\<close>

definition machine_ok :: "cpu \<Rightarrow> precompile_handler \<Rightarrow> step_outcome res \<times> cpu \<times> precompile_handler \<Rightarrow> bool" where
  "machine_ok c h r \<longleftrightarrow> (case r of (out, c', h') \<Rightarrow>
     (case out of Inl _ \<Rightarrow> c' = c \<and> h' = h | Inr _ \<Rightarrow> kept c c' \<and> same_tables h h'))"

lemma machine_ok_simps [simp]:
  "machine_ok c h (Inl e, c', h') \<longleftrightarrow> c' = c \<and> h' = h"
  "machine_ok c h (Inr u, c', h') \<longleftrightarrow> kept c c' \<and> same_tables h h'"
  by (simp_all add: machine_ok_def)

lemma same_tables_io [simp]:
  "same_tables h h" "same_tables h (h\<lparr>io := i\<rparr>)" "same_tables h (replace_hint_stream h bs)"
  "same_tables h (push_hint h bs)" "same_tables h (push_hint (push_hint h bs) cs)"
  by (simp_all add: same_tables_def replace_hint_stream_def push_hint_def)

lemma continue_with_ok: "insn_ok c r \<Longrightarrow> machine_ok c h (continue_with h r)"
  by (cases r) (auto simp: continue_with_def insn_ok_def split: sum.splits)

lemma store_hint_ok: "wf_cpu c \<Longrightarrow> machine_ok c h (store_hint h c a n)"
  by (simp add: store_hint_def read_hint_bytes_eq kept_mem keeps_wf)

lemma handle_modular_ok:
  "wf_cpu c \<Longrightarrow> case handle_modular fill h c insn of (out, c', h') \<Rightarrow>
     (case out of Inl _ \<Rightarrow> c' = c \<and> h' = h | Inr _ \<Rightarrow> kept c c' \<and> same_tables h h')"
  using do_mod_op_ok [of c insn "moduli h ! unat ((drop_bit 25 insn AND 0x7f) div MODULAR_MAX_KINDS)"
      "(drop_bit 25 insn AND 0x7f) mod MODULAR_MAX_KINDS"]
  by (auto simp: handle_modular_def Let_def insn_ok_def kept_refl split: sum.splits prod.splits)

lemma bn_hint_final_exp_ok:
  "case bn_hint_final_exp T h c insn of (out, h') \<Rightarrow> (case out of Inl _ \<Rightarrow> h' = h | Inr _ \<Rightarrow> same_tables h h')"
  by (auto simp: bn_hint_final_exp_def Let_def split: sum.splits prod.splits)

lemma bls_hint_final_exp_ok:
  "case bls_hint_final_exp T h c insn of (out, h') \<Rightarrow> (case out of Inl _ \<Rightarrow> h' = h | Inr _ \<Rightarrow> same_tables h h')"
  by (auto simp: bls_hint_final_exp_def Let_def split: sum.splits prod.splits)

lemma handle_pairing_ok:
  "case handle_pairing B L h c insn of (out, h') \<Rightarrow> (case out of Inl _ \<Rightarrow> h' = h | Inr _ \<Rightarrow> same_tables h h')"
  using bn_hint_final_exp_ok [where T = B and h = h and c = c and insn = insn]
    bls_hint_final_exp_ok [where T = L and h = h and c = c and insn = insn]
  by (simp add: handle_pairing_def Let_def)

lemma handle_custom1_ok: "wf_cpu c \<Longrightarrow> machine_ok c h (handle_custom1 X insn f3 c h)"
  using handle_modular_ok [where h = h and fill = "ext_fill X" and insn = insn and c = c]
    handle_pairing_ok [where B = "ext_bn254 X" and L = "ext_bls12_381 X" and h = h and c = c and insn = insn]
  by (simp add: handle_custom1_def continue_with_ok handle_complex_ok handle_sw_ok)
    (auto simp: kept_refl split: sum.splits prod.splits)

lemma funct3_cases_ok:
  "wf_cpu c \<Longrightarrow> f3 \<noteq> F3_BEQ256 \<Longrightarrow> machine_ok c h (handle_custom0 X insn f3 c h)"
  by (auto simp: handle_custom0_def Let_def kept_refl continue_with_ok store_hint_ok do_keccakf_ok do_xorin_ok
      do_sha256_ok handle_int256_ok split: sum.split)

text \<open>When an instruction is a taken 256-bit branch.\<close>

definition beq256_taken :: "cpu \<Rightarrow> u32 \<Rightarrow> bool" where
  "beq256_taken c insn \<longleftrightarrow> opcode insn = OPCODE_CUSTOM_0 \<and> funct3 insn = F3_BEQ256 \<and>
     read32 c (read_reg c (rs1 insn)) = read32 c (read_reg c (rs2 insn))"

lemma handle_beq256_step:
  "handle_custom0 X insn F3_BEQ256 c h = (Inr Continue, c\<lparr>cpu_pc :=
     (if read32 c (read_reg c (rs1 insn)) = read32 c (read_reg c (rs2 insn)) then cpu_pc c + imm_b insn
      else cpu_pc c + 4)\<rparr>, h)"
  by (simp add: handle_custom0_def handle_beq256_def continue_with_def dispatch_defs Let_def)

text \<open>The whole contract of a custom instruction.\<close>

definition handled_ok :: "u32 \<Rightarrow> cpu \<Rightarrow> precompile_handler \<Rightarrow> step_outcome res \<times> cpu \<times> precompile_handler \<Rightarrow> bool" where
  "handled_ok insn c h r \<longleftrightarrow> (case r of (out, c', h') \<Rightarrow>
     (case out of
        Inl _ \<Rightarrow> c' = c \<and> h' = h
      | Inr Continue \<Rightarrow> wf_cpu c' \<and> cpu_steps c' = cpu_steps c \<and> same_tables h h' \<and>
          cpu_pc c' = (if beq256_taken c insn \<and> imm_b insn \<noteq> 0 then cpu_pc c + imm_b insn else cpu_pc c + 4)
      | Inr (Terminated code) \<Rightarrow> c' = c \<and> h' = h \<and> opcode insn = OPCODE_CUSTOM_0 \<and>
          funct3 insn = F3_TERMINATE \<and> code = read_reg c (rs1 insn)))"

text \<open>Only the terminating instruction ends a run.\<close>

lemma custom0_terminates:
  "handle_custom0 X insn f3 c h = (Inr (Terminated code), c', h') \<Longrightarrow>
    f3 = F3_TERMINATE \<and> c' = c \<and> h' = h \<and> code = read_reg c (rs1 insn)"
  by (auto simp: handle_custom0_def Let_def continue_with_def store_hint_def
      split: if_splits sum.splits prod.splits)

lemma custom1_terminates: "handle_custom1 X insn f3 c h \<noteq> (Inr (Terminated code), c', h')"
  by (auto simp: handle_custom1_def continue_with_def split: sum.splits prod.splits)

lemma advance_ok:
  assumes "machine_ok c h r" "\<not> beq256_taken c insn"
    and "\<And>code c' h'. r \<noteq> (Inr (Terminated code), c', h')"
  shows "handled_ok insn c h (case r of (Inl e, c, h) \<Rightarrow> (Inl e, c, h)
    | (Inr Continue, c1, h) \<Rightarrow> (Inr Continue, if cpu_pc c1 = cpu_pc c then c1\<lparr>cpu_pc := cpu_pc c + 4\<rparr> else c1, h)
    | (Inr (Terminated code), c, h) \<Rightarrow> (Inr (Terminated code), c, h))"
  using assms
  by (cases r) (auto simp: machine_ok_def handled_ok_def kept_def split: sum.splits step_outcome.splits)

lemma handle_ok:
  assumes "wf_cpu c"
  shows "handled_ok insn c h (handle X insn c h)"
proof -
  consider (beq) "opcode insn = OPCODE_CUSTOM_0" "funct3 insn = F3_BEQ256"
    | (halt) "opcode insn = OPCODE_CUSTOM_0" "funct3 insn = F3_TERMINATE"
    | (c0) "opcode insn = OPCODE_CUSTOM_0" "funct3 insn \<noteq> F3_BEQ256" "funct3 insn \<noteq> F3_TERMINATE"
    | (c1) "opcode insn = OPCODE_CUSTOM_1"
    | (other) "opcode insn \<noteq> OPCODE_CUSTOM_0" "opcode insn \<noteq> OPCODE_CUSTOM_1"
    by blast
  then show ?thesis
  proof cases
    case beq
    then show ?thesis
      using assms by (auto simp: handle_def Let_def handle_beq256_step handled_ok_def beq256_taken_def same_tables_def)
  next
    case halt
    then show ?thesis
      by (simp add: handle_def handle_custom0_def handled_ok_def)
  next
    case c0
    have "handle_custom0 X insn (funct3 insn) c h \<noteq> (Inr (Terminated code), c', h')" for code c' h'
      using c0(3) custom0_terminates by blast
    then show ?thesis
      unfolding handle_def Let_def
      using c0 advance_ok [OF funct3_cases_ok [OF assms c0(2), of h X insn], of insn]
      by (simp add: beq256_taken_def)
  next
    case c1
    then show ?thesis
      unfolding handle_def Let_def
      using advance_ok [OF handle_custom1_ok [OF assms, of h X insn "funct3 insn"], of insn]
      by (simp add: beq256_taken_def dispatch_defs custom1_terminates)
  next
    case other
    then show ?thesis
      by (simp add: handle_def Let_def handled_ok_def)
  qed
qed

interpretation machine: custom_handler "handle X" "same_tables t" for X t
proof unfold_locales
  fix c h insn r c' h'
  assume "wf_cpu c" "same_tables t h" "handle X insn c h = (r, c', h')"
  with handle_ok [of c insn h X] show "wf_cpu c' \<and> same_tables t h' \<and> cpu_steps c' = cpu_steps c"
    by (auto simp: handled_ok_def same_tables_def split: sum.splits step_outcome.splits)
qed

section \<open>Properties\<close>

text \<open>C27. The outcome of every custom instruction: a failure or a panic leaves the processor and the
  host's streams as they were; a success keeps the processor well formed and the tables, and moves
  the program counter by four or, for a taken 256-bit branch whose offset is not zero, by the offset;
  only the terminating instruction ends the run, with the value of its source register. A taken
  256-bit branch with offset zero goes on with the next instruction, though the documentation of
  the instruction makes it a branch to itself.\<close>

theorem custom_instruction_contract:
  assumes "wf_cpu c"
  shows "case handle X insn c h of (out, c', h') \<Rightarrow>
    (case out of
       Inl _ \<Rightarrow> c' = c \<and> h' = h
     | Inr Continue \<Rightarrow> wf_cpu c' \<and> cpu_steps c' = cpu_steps c \<and> same_tables h h' \<and>
         cpu_pc c' = (if beq256_taken c insn \<and> imm_b insn \<noteq> 0 then cpu_pc c + imm_b insn else cpu_pc c + 4)
     | Inr (Terminated code) \<Rightarrow> c' = c \<and> h' = h \<and> opcode insn = OPCODE_CUSTOM_0 \<and>
         funct3 insn = F3_TERMINATE \<and> code = read_reg c (rs1 insn))"
  using handle_ok [OF assms, of insn h X] by (simp add: handled_ok_def)

text \<open>C28. A step that fails, on a base or a custom opcode, with an error or a panic, changes nothing:
  the state that the failing run reports is the state before the failing instruction.\<close>

theorem failed_steps_are_atomic:
  assumes "wf_cpu c" and "step (handle X) c h = (Inl e, c', h')"
  shows "c' = c \<and> h' = h"
proof (cases "custom_opcode (read_u32 (cpu_mem c) (cpu_pc c))")
  case True
  with assms handle_ok [OF assms(1), of "read_u32 (cpu_mem c) (cpu_pc c)" h X] show ?thesis
    by (simp add: step_custom handled_ok_def)
next
  case False
  with assms step_plain [OF assms(1) False, of h "handle X"] show ?thesis
    by (auto simp: plain_step_ok_def)
qed

section \<open>Input and output of the guest\<close>

lemma read_reg_update [simp]:
  "read_reg (c\<lparr>cpu_mem := m\<rparr>) r = read_reg c r" "read_reg (c\<lparr>cpu_pc := p\<rparr>) r = read_reg c r"
  by (simp_all add: read_reg_def)

lemma pc_advances [simp]: "(p :: u32) = p + 4 \<longleftrightarrow> False"
  by simp

text \<open>The three instructions of the guest's input protocol, by their fields.\<close>

definition is_hint_input :: "u32 \<Rightarrow> bool" where
  "is_hint_input insn \<longleftrightarrow> opcode insn = OPCODE_CUSTOM_0 \<and> funct3 insn = F3_PHANTOM \<and>
     imm_i insn AND 0xfff = PHANTOM_HINT_INPUT"

definition is_hint_storew :: "u32 \<Rightarrow> bool" where
  "is_hint_storew insn \<longleftrightarrow> opcode insn = OPCODE_CUSTOM_0 \<and> funct3 insn = F3_HINT \<and>
     imm_i insn AND 0xfff = HINT_STOREW_IMM"

definition is_hint_buffer :: "u32 \<Rightarrow> bool" where
  "is_hint_buffer insn \<longleftrightarrow> opcode insn = OPCODE_CUSTOM_0 \<and> funct3 insn = F3_HINT \<and>
     imm_i insn AND 0xfff = HINT_BUFFER_IMM"

definition is_reveal :: "u32 \<Rightarrow> bool" where
  "is_reveal insn \<longleftrightarrow> opcode insn = OPCODE_CUSTOM_0 \<and> funct3 insn = F3_REVEAL"

lemma handle_hint_input:
  "is_hint_input insn \<Longrightarrow> hint_input (io h) = Inr i \<Longrightarrow>
    handle X insn c h = (Inr Continue, c\<lparr>cpu_pc := cpu_pc c + 4\<rparr>, h\<lparr>io := i\<rparr>)"
  by (simp add: handle_def handle_custom0_def is_hint_input_def Let_def dispatch_defs)

lemma handle_hint_store:
  assumes "is_hint_storew insn \<and> n = 4 \<or> is_hint_buffer insn \<and> n = unat (read_reg c (rs1 insn)) * 4"
  shows "handle X insn c h = (Inr Continue,
    c\<lparr>cpu_mem := write_slice (cpu_mem c) (read_reg c (rd insn)) (resize_zero n (hint_stream (io h))),
      cpu_pc := cpu_pc c + 4\<rparr>,
    h\<lparr>io := (io h)\<lparr>hint_stream := drop n (hint_stream (io h))\<rparr>\<rparr>)"
proof -
  have pc: "cpu_pc (c\<lparr>cpu_mem := m\<rparr>) = cpu_pc c" for m
    by simp
  have "handle_custom0 X insn (funct3 insn) c h = store_hint h c (read_reg c (rd insn)) n"
    using assms
    by (elim disjE conjE) (simp_all add: handle_custom0_def is_hint_storew_def is_hint_buffer_def dispatch_defs)
  moreover have "opcode insn = OPCODE_CUSTOM_0"
    using assms by (auto simp: is_hint_storew_def is_hint_buffer_def)
  ultimately show ?thesis
    by (simp add: handle_def store_hint_def read_hint_bytes_eq write_slice_def)
qed

lemma input_protocol:
  assumes "wf_memory (cpu_mem c)" and "input_streams (io h) = data # rest" and "length data + 4 \<le> 2 ^ 32"
    and "is_hint_input i1" and "is_hint_storew i2" and "is_hint_buffer i3"
    and "unat (read_reg c (rs1 i3)) = (length data + 3) div 4"
    and "disjoint_ranges (read_reg c (rd i3)) (4 * ((length data + 3) div 4)) (read_reg c (rd i2)) 4"
  shows "case handle X i1 c h of (r1, c1, h1) \<Rightarrow> case handle X i2 c1 h1 of (r2, c2, h2) \<Rightarrow>
    case handle X i3 c2 h2 of (r3, c3, h3) \<Rightarrow>
      [r1, r2, r3] = [Inr Continue, Inr Continue, Inr Continue] \<and>
      c3 = c\<lparr>cpu_mem := cpu_mem c3, cpu_pc := cpu_pc c + 12\<rparr> \<and>
      unat (read_u32 (cpu_mem c3) (read_reg c (rd i2))) = length data \<and>
      read_vec (cpu_mem c3) (read_reg c (rd i3)) (length data) = data \<and>
      h3 = h\<lparr>io := (io h)\<lparr>input_streams := rest, hint_stream := []\<rparr>\<rparr>"
proof -
  let ?a = "read_reg c (rd i2)" and ?b = "read_reg c (rd i3)" and ?n = "4 * ((length data + 3) div 4)"
  let ?len = "to_le_bytes (of_nat (length data) :: u32)" and ?pad = "replicate (pad_len (length data)) (0 :: u8)"
  let ?i = "(io h)\<lparr>input_streams := rest, hint_stream := ?len @ data @ ?pad\<rparr>"
  let ?m = "write_slice (cpu_mem c) ?a ?len"
  have n: "?n = length data + pad_len (length data)"
    by (rule pad_words)
  have n_bound: "length (data @ ?pad) \<le> 2 ^ 32"
    using pad_len_less [of "length data"] assms(3) by simp
  have "hint_input (io h) = Inr ?i"
    using assms(2) by (simp add: hint_input_def pad4_eq)
  note s1 = handle_hint_input [OF assms(4) this, of X c]
  have s2: "handle X i2 (c\<lparr>cpu_pc := cpu_pc c + 4\<rparr>) (h\<lparr>io := ?i\<rparr>) =
      (Inr Continue, c\<lparr>cpu_mem := ?m, cpu_pc := cpu_pc c + 8\<rparr>,
       h\<lparr>io := (io h)\<lparr>input_streams := rest, hint_stream := data @ ?pad\<rparr>\<rparr>)"
    using handle_hint_store [of i2 4 "c\<lparr>cpu_pc := cpu_pc c + 4\<rparr>" X "h\<lparr>io := ?i\<rparr>"] assms(5)
    by (simp add: resize_zero_def)
  have s3: "handle X i3 (c\<lparr>cpu_mem := ?m, cpu_pc := cpu_pc c + 8\<rparr>)
        (h\<lparr>io := (io h)\<lparr>input_streams := rest, hint_stream := data @ ?pad\<rparr>\<rparr>) =
      (Inr Continue, c\<lparr>cpu_mem := write_slice ?m ?b (data @ ?pad), cpu_pc := cpu_pc c + 12\<rparr>,
       h\<lparr>io := (io h)\<lparr>input_streams := rest, hint_stream := []\<rparr>\<rparr>)"
    using handle_hint_store [of i3 ?n "c\<lparr>cpu_mem := ?m, cpu_pc := cpu_pc c + 8\<rparr>" X] assms(6,7)
    by (simp add: n resize_zero_def mult.commute)
  have wf: "wf_memory ?m"
    by (simp add: assms(1) keeps_wf)
  have whole: "read_vec (write_slice ?m ?b (data @ ?pad)) ?b (length data + length ?pad) = data @ ?pad"
    using read_vec_write_slice [OF wf n_bound, of ?b] by simp
  have "read_vec (write_slice ?m ?b (data @ ?pad)) ?a 4 = read_vec ?m ?a 4"
    using assms(8) n n_bound wf by (intro read_vec_write_slice_disjoint) simp_all
  also have "\<dots> = ?len"
    using read_vec_write_slice [OF assms(1), of ?len ?a] by simp
  finally have "unat (read_u32 (write_slice ?m ?b (data @ ?pad)) ?a) = length data"
    using assms(3) by (simp add: read_u32_bytes from_to_le_bytes unat_of_nat)
  moreover have "read_vec (write_slice ?m ?b (data @ ?pad)) ?b (length data) = data"
    using whole by (simp only: read_vec_append) simp
  ultimately show ?thesis
    by (simp add: s1 s2 s3)
qed

text \<open>C29. The guest's input protocol, through the machine: HintInput, then HINT_STOREW, then
  HINT_BUFFER for the words that hold the announced length deliver to guest memory the length of
  the next input data and the data itself, consume the data and leave the hint stream empty,
  whatever bytes were left in it before; no other state changes.\<close>

theorem guest_reads_input:
  assumes "wf_memory (cpu_mem c)" and "input_streams (io h) = data # rest" and "length data + 4 \<le> 2 ^ 32"
    and "is_hint_input i1" and "is_hint_storew i2" and "is_hint_buffer i3"
    and "unat (read_reg c (rs1 i3)) = (length data + 3) div 4"
    and "disjoint_ranges (read_reg c (rd i3)) (4 * ((length data + 3) div 4)) (read_reg c (rd i2)) 4"
  shows "case handle X i1 c h of (r1, c1, h1) \<Rightarrow> case handle X i2 c1 h1 of (r2, c2, h2) \<Rightarrow>
    case handle X i3 c2 h2 of (r3, c3, h3) \<Rightarrow>
      [r1, r2, r3] = [Inr Continue, Inr Continue, Inr Continue] \<and>
      c3 = c\<lparr>cpu_mem := cpu_mem c3, cpu_pc := cpu_pc c + 12\<rparr> \<and>
      unat (read_u32 (cpu_mem c3) (read_reg c (rd i2))) = length data \<and>
      read_vec (cpu_mem c3) (read_reg c (rd i3)) (length data) = data \<and>
      h3 = h\<lparr>io := (io h)\<lparr>input_streams := rest, hint_stream := []\<rparr>\<rparr>"
  by (rule input_protocol [OF assms])

text \<open>C30. REVEAL publishes a register: the four bytes of its value appear in the public output at the
  offset, gaps before it are zeroes, every other published byte stays, and the guest's state changes
  only by the program counter.\<close>

theorem reveal_publishes:
  assumes "is_reveal insn"
    and "off = unat (read_reg c (rd insn) + (imm_i insn AND 0xfff))"
  shows "\<exists>out. handle X insn c h =
      (Inr Continue, c\<lparr>cpu_pc := cpu_pc c + 4\<rparr>, h\<lparr>io := (io h)\<lparr>io_output := out\<rparr>\<rparr>) \<and>
    length out = max (length (io_output (io h))) (off + 4) \<and>
    from_le_bytes (take 4 (drop off out)) = read_reg c (rs1 insn) \<and>
    take off out = resize_zero off (io_output (io h)) \<and>
    drop (off + 4) out = drop (off + 4) (io_output (io h))"
proof -
  let ?v = "to_le_bytes (read_reg c (rs1 insn))" and ?o = "io_output (io h)"
  let ?out = "take off (if length ?o < off + 4 then resize_zero (off + 4) ?o else ?o) @ ?v @
    drop (off + 4) (if length ?o < off + 4 then resize_zero (off + 4) ?o else ?o)"
  have "handle X insn c h = (Inr Continue, c\<lparr>cpu_pc := cpu_pc c + 4\<rparr>, h\<lparr>io := (io h)\<lparr>io_output := ?out\<rparr>\<rparr>)"
    using assms by (simp add: handle_def handle_custom0_def is_reveal_def write_output_def Let_def dispatch_defs)
  moreover have "take off (if length ?o < off + 4 then resize_zero (off + 4) ?o else ?o) = resize_zero off ?o"
    by (auto simp: resize_zero_def min_def)
  moreover have "drop (off + 4) (if length ?o < off + 4 then resize_zero (off + 4) ?o else ?o) = drop (off + 4) ?o"
    by (simp add: resize_zero_def)
  ultimately show ?thesis
    by (intro exI [of _ ?out]) (simp add: from_to_le_bytes max_def)
qed

section \<open>Witnesses\<close>

text \<open>Third-party code for the examples: any functions of the right types.\<close>

definition example_tower :: "nat tower" where
  "example_tower = \<lparr>fq_mod_order = le_val, fq_bigint_le = to_bytes_le, fq2_zero = Fq2 0 0,
     fq6_zero = Fq6 (Fq2 0 0) (Fq2 0 0) (Fq2 0 0),
     fq12_one = Fq12 (Fq6 (Fq2 1 0) (Fq2 0 0) (Fq2 0 0)) (Fq6 (Fq2 0 0) (Fq2 0 0) (Fq2 0 0)),
     fq12_mul = (\<lambda>x y. x), fq12_pow = (\<lambda>x e. x), fq12_inverse = Some,
     multi_miller_loop = (\<lambda>_ _. Fq12 (Fq6 (Fq2 1 0) (Fq2 0 0) (Fq2 0 0)) (Fq6 (Fq2 0 0) (Fq2 0 0) (Fq2 0 0)))\<rparr>"

definition example_externals :: "(nat, nat) externals" where
  "example_externals = \<lparr>ext_fill = (\<lambda>_ n. replicate n 0), ext_compress256 = (\<lambda>s _. s),
     ext_bn254 = example_tower, ext_bls12_381 = example_tower\<rparr>"

lemma example_cpu_steps [simp]: "cpu_steps (example_cpu blocks regs) = 0"
proof -
  have "cpu_steps (fold (\<lambda>(r, v) c. write_reg c r v) regs c) = cpu_steps c" for c
    by (induction regs arbitrary: c) (auto simp: write_reg_def)
  then show ?thesis
    by (simp add: example_cpu_def new_cpu_def Let_def)
qed

theorem custom_instruction_contract_witness:
  "case handle example_externals (B_type 16 11 10 6 0x0b) (example_cpu [] []) (new_handler []) of (out, c', h') \<Rightarrow>
    (case out of
       Inl _ \<Rightarrow> c' = example_cpu [] [] \<and> h' = new_handler []
     | Inr Continue \<Rightarrow> wf_cpu c' \<and> cpu_pc c' = 16
     | Inr (Terminated code) \<Rightarrow> funct3 (B_type 16 11 10 6 0x0b) = F3_TERMINATE)"
proof -
  have t: "beq256_taken (example_cpu [] []) (B_type 16 11 10 6 0x0b)" "imm_b (B_type 16 11 10 6 0x0b) = 16"
    "cpu_pc (example_cpu [] []) = 0"
    by code_simp+
  from custom_instruction_contract [OF wf_example_cpu [of "[]" "[]"], where X = example_externals
      and h = "new_handler []" and insn = "B_type 16 11 10 6 0x0b"] show ?thesis
    by (auto simp: t split: sum.splits step_outcome.splits)
qed

theorem failed_steps_are_atomic_witness:
  "\<exists>c' h'. step (handle example_externals) (example_cpu [] []) (new_handler []) =
      (Inl (Failed (IllegalInstruction 0 0)), c', h') \<and> c' = example_cpu [] [] \<and> h' = new_handler []"
proof -
  have r: "read_u32 (cpu_mem (example_cpu [] [])) 0 = 0" "cpu_pc (example_cpu [] []) = 0"
    by code_simp+
  have st: "step (handle example_externals) (example_cpu [] []) (new_handler []) =
      (Inl (Failed (IllegalInstruction 0 0)), example_cpu [] [], new_handler [])"
    by (simp add: step_def Let_def r opcode_def dispatch_defs)
  from failed_steps_are_atomic [OF wf_example_cpu st] st show ?thesis
    by blast
qed

definition input_cpu :: cpu where
  "input_cpu = example_cpu [] [(10, 0x200), (11, 0x100), (12, 1)]"

theorem guest_reads_input_witness:
  "case handle example_externals (I_type 0 0 3 0 0x0b) input_cpu (new_handler [1, 2, 3]) of (r1, c1, h1) \<Rightarrow>
    case handle example_externals (I_type 0 0 1 10 0x0b) c1 h1 of (r2, c2, h2) \<Rightarrow>
    case handle example_externals (I_type 1 12 1 11 0x0b) c2 h2 of (r3, c3, h3) \<Rightarrow>
      unat (read_u32 (cpu_mem c3) 0x200) = 3 \<and> read_vec (cpu_mem c3) 0x100 3 = [1, 2, 3] \<and>
      hint_stream (io h3) = []"
proof -
  have i: "is_hint_input (I_type 0 0 3 0 0x0b)" "is_hint_storew (I_type 0 0 1 10 0x0b)"
    "is_hint_buffer (I_type 1 12 1 11 0x0b)"
    "unat (read_reg input_cpu (rs1 (I_type 1 12 1 11 0x0b))) = (length [1, 2, 3 :: u8] + 3) div 4"
    "read_reg input_cpu (rd (I_type 1 12 1 11 0x0b)) = 0x100" "read_reg input_cpu (rd (I_type 0 0 1 10 0x0b)) = 0x200"
    "disjoint_ranges 0x100 (4 * ((length [1, 2, 3 :: u8] + 3) div 4)) 0x200 4"
    by code_simp+
  have m: "wf_memory (cpu_mem input_cpu)"
    by (simp add: input_cpu_def keeps_wf)
  have h: "input_streams (io (new_handler [1, 2, 3])) = [1, 2, 3] # []"
    by (simp add: new_handler_def with_input_def)
  have l: "length [1, 2, 3 :: u8] = 3"
    by simp
  from guest_reads_input [OF m h _ i(1-4), where X = example_externals, unfolded i(5,6), OF _ i(7), unfolded l] show ?thesis
    by (auto simp: new_handler_def split: prod.splits)
qed

theorem reveal_publishes_witness:
  "\<exists>out. handle example_externals (I_type 4 10 2 0 0x0b) input_cpu (new_handler []) =
      (Inr Continue, input_cpu\<lparr>cpu_pc := cpu_pc input_cpu + 4\<rparr>,
       new_handler []\<lparr>io := (io (new_handler []))\<lparr>io_output := out\<rparr>\<rparr>) \<and>
    from_le_bytes (take 4 (drop 4 out)) = (0x200 :: u32)"
proof -
  have i: "is_reveal (I_type 4 10 2 0 0x0b)" "read_reg input_cpu (rs1 (I_type 4 10 2 0 0x0b)) = 0x200"
    "4 = unat (read_reg input_cpu (rd (I_type 4 10 2 0 0x0b)) + (imm_i (I_type 4 10 2 0 0x0b) AND 0xfff))"
    by code_simp+
  from reveal_publishes [OF i(1,3), where X = example_externals and h = "new_handler []"] show ?thesis
    by (auto simp: i(2))
qed

end
