(* ===== verification/Runner.thy ===== *)
theory Runner
  imports Handler Elf
begin

text \<open>
  The command line of \<^verbatim>\<open>runner/src/main.rs\<close>, from the parsed arguments to the standard output. The
  files and the standard input are parameters; log lines go to another stream and are not modelled.
\<close>

section \<open>The world outside\<close>

text \<open>The contents of a file, or the operating system's message; and the standard input.\<close>

record files =
  file_read :: "string \<Rightarrow> string + u8 list"
  stdin_read :: "string + u8 list"

text \<open>How a command can end without output: an error it returns, a panic, or not at all.\<close>

datatype 'p cmd_error =
    IoError string string
  | ElfFailure "'p elf_error"
  | CpuFailure cpu_error
  | CmdPanic
  | CmdDiverges

type_synonym ('p, 'a) cmd = "'p cmd_error + 'a"

definition read_file :: "files \<Rightarrow> string \<Rightarrow> string \<Rightarrow> ('p, u8 list) cmd" where
  "read_file w ctxt path = (case file_read w path of Inl e \<Rightarrow> Inl (IoError (ctxt @ path) e) | Inr bs \<Rightarrow> Inr bs)"

definition read_input :: "files \<Rightarrow> string option \<Rightarrow> ('p, u8 list) cmd" where
  "read_input w path =
     (case path of
        None \<Rightarrow> Inr []
      | Some p \<Rightarrow>
          if p = ''-'' then (case stdin_read w of Inl e \<Rightarrow> Inl (IoError '''' e) | Inr buf \<Rightarrow> Inr buf)
          else read_file w ''reading input '' p)"

definition load_elf :: "(u8 list \<Rightarrow> 'p + elf_file) \<Rightarrow> u8 list \<Rightarrow> ('p, loaded_program) cmd" where
  "load_elf minimal_parse bytes =
     (case load_rv32_elf minimal_parse bytes of
        Loaded prog \<Rightarrow> Inr prog | LoadError e \<Rightarrow> Inl (ElfFailure e) | LoadPanic \<Rightarrow> Inl CmdPanic)"

section \<open>Printing\<close>

text \<open>\<^verbatim>\<open>chunks(n)\<close>: consecutive pieces of \<open>n\<close> elements, the last one possibly shorter.\<close>

function chunks :: "nat \<Rightarrow> 'a list \<Rightarrow> 'a list list" where
  "chunks n xs = (if n = 0 \<or> xs = [] then [] else take n xs # chunks n (drop n xs))"
  by pat_completeness auto
termination
  by (relation "measure (\<lambda>(n, xs). length xs)") auto

declare chunks.simps [simp del]

definition newline :: string where
  "newline = [CHR 0x0A]"

definition pad_spaces :: "nat \<Rightarrow> string \<Rightarrow> string" where
  "pad_spaces w s = replicate (w - length s) CHR '' '' @ s"

definition print_hex :: "u8 list \<Rightarrow> string" where
  "print_hex out = concat (map fmt_02x out) @ newline"

definition print_chunks :: "u8 list \<Rightarrow> string" where
  "print_chunks out = concat (map (\<lambda>(i, chunk).
     ''['' @ pad_spaces 2 (fmt_dec i) @ ''] 0x'' @ concat (map fmt_02x chunk) @ newline) (enumerate 0 (chunks 32 out)))"

definition print_segment :: "segment \<Rightarrow> string" where
  "print_segment s =
     ''  vaddr=0x'' @ fmt_08x (vaddr s) @ '' mem_size=0x'' @ fmt_x (unat (mem_size s)) @
     '' file_size=0x'' @ fmt_x (length (seg_data s)) @ '' flags='' @
     ''R'' @ (if writable s then ''W'' else ''-'') @ (if executable s then ''X'' else ''-'') @ newline"

section \<open>The commands\<close>

definition bind_cmd :: "('p, 'a) cmd \<Rightarrow> ('a \<Rightarrow> ('p, 'b) cmd) \<Rightarrow> ('p, 'b) cmd" where
  "bind_cmd r f = (case r of Inl e \<Rightarrow> Inl e | Inr v \<Rightarrow> f v)"

lemma bind_cmd_simps [simp]: "bind_cmd (Inl e) f = Inl e" "bind_cmd (Inr v) f = f v"
  by (simp_all add: bind_cmd_def)

definition cmd_run :: "('b, 'l) externals \<Rightarrow> (u8 list \<Rightarrow> 'p + elf_file) \<Rightarrow> files
    \<Rightarrow> string \<Rightarrow> string option \<Rightarrow> u64 \<Rightarrow> bool \<Rightarrow> ('p, string) cmd" where
  "cmd_run X minimal_parse w elf input max_steps as_hex =
     bind_cmd (read_file w ''reading ELF '' elf) (\<lambda>bytes.
     bind_cmd (load_elf minimal_parse bytes) (\<lambda>prog.
     bind_cmd (read_input w input) (\<lambda>input_bytes.
       let c = new_cpu prog; h = new_handler input_bytes in
       case run (handle X) max_steps c h of
         None \<Rightarrow> Inl CmdDiverges
       | Some (Inl (Failed e), c, h) \<Rightarrow> Inl (CpuFailure e)
       | Some (Inl (Panicked msg), c, h) \<Rightarrow> Inl CmdPanic
       | Some (Inl Diverged, c, h) \<Rightarrow> Inl CmdDiverges
       | Some (Inr code, c, h) \<Rightarrow>
           let out = io_output (io h) in Inr (if as_hex then print_hex out else print_chunks out))))"

definition cmd_info :: "(u8 list \<Rightarrow> 'p + elf_file) \<Rightarrow> files \<Rightarrow> string \<Rightarrow> ('p, string) cmd" where
  "cmd_info minimal_parse w elf =
     bind_cmd (read_file w ''reading ELF '' elf) (\<lambda>bytes.
     bind_cmd (load_elf minimal_parse bytes) (\<lambda>prog.
       Inr (''entry: 0x'' @ fmt_08x (entry prog) @ newline @
         ''high water: 0x'' @ fmt_08x (memory_high_water prog) @ newline @
         ''segments ('' @ fmt_dec (length (segments prog)) @ ''):'' @ newline @
         concat (map print_segment (segments prog)))))"

text \<open>The parsed command line.\<close>

datatype command =
    Run string "string option" u64 bool
  | Info string

definition main_cmd :: "('b, 'l) externals \<Rightarrow> (u8 list \<Rightarrow> 'p + elf_file) \<Rightarrow> files \<Rightarrow> command \<Rightarrow> ('p, string) cmd" where
  "main_cmd X minimal_parse w cmd =
     (case cmd of
        Run elf input max_steps hex \<Rightarrow> cmd_run X minimal_parse w elf input max_steps hex
      | Info elf \<Rightarrow> cmd_info minimal_parse w elf)"

section \<open>The printed output determines the bytes\<close>

text \<open>A reader of the output: the digits of a line in pairs, and the lines after their prefixes.\<close>

fun unhex :: "string \<Rightarrow> u8 list" where
  "unhex (a # b # cs) = of_nat (radix_val 16 [a, b]) # unhex cs"
| "unhex _ = []"

primrec split_lines :: "string \<Rightarrow> string \<Rightarrow> string list" where
  "split_lines [] cur = []"
| "split_lines (ch # s) cur = (if ch = CHR 0x0A then rev cur # split_lines s [] else split_lines s (ch # cur))"

definition after_prefix :: "string \<Rightarrow> string" where
  "after_prefix s = drop 4 (dropWhile (\<lambda>ch. ch \<noteq> CHR '']'') s)"

definition read_printed :: "string \<Rightarrow> u8 list" where
  "read_printed s = concat (map (\<lambda>l. unhex (after_prefix l)) (split_lines s []))"

lemma fmt_02x_digits: "\<exists>a b. fmt_02x x = [a, b]"
  using fmt_02x_length [of x] by (cases "fmt_02x x"; cases "tl (fmt_02x x)") auto

lemma unhex_digits: "unhex (concat (map fmt_02x bs) @ rest) = bs @ unhex rest"
proof (induction bs)
  case (Cons b bs)
  obtain a1 a2 where d: "fmt_02x b = [a1, a2]"
    using fmt_02x_digits by blast
  with fmt_02x_inverse [of b] have "radix_val 16 [a1, a2] = unat b"
    by simp
  with Cons d show ?case
    by simp
qed simp

text \<open>Digits are neither brackets nor ends of lines.\<close>

lemma digit_char_plain: "d < 16 \<Longrightarrow> digit_char d \<noteq> CHR 0x0A \<and> digit_char d \<noteq> CHR '']''"
proof -
  assume "d < 16"
  then have "d \<in> set [0..<16]"
    by simp
  moreover have "list_all (\<lambda>d. digit_char d \<noteq> CHR 0x0A \<and> digit_char d \<noteq> CHR '']'') [0..<16]"
    by code_simp
  ultimately show ?thesis
    unfolding list_all_iff by blast
qed

lemma fmt_radix_plain:
  "2 \<le> b \<Longrightarrow> b \<le> 16 \<Longrightarrow> ch \<in> set (fmt_radix b n) \<Longrightarrow> ch \<noteq> CHR 0x0A \<and> ch \<noteq> CHR '']''"
proof (induction b n rule: fmt_radix.induct)
  case (1 b n)
  have "n mod b < 16" "n < b \<Longrightarrow> n < 16"
    using 1 by (auto intro: less_le_trans [OF mod_less_divisor])
  with 1 show ?case
    by (subst (asm) (2) fmt_radix.simps) (auto simp: digit_char_plain split: if_splits)
qed

lemma fmt_02x_plain: "ch \<in> set (fmt_02x x) \<Longrightarrow> ch \<noteq> CHR 0x0A"
  using fmt_radix_plain [of 16 ch "unat x"] by (auto simp: fmt_02x_def pad_zeros_def)

lemma split_lines_append:
  "CHR 0x0A \<notin> set l \<Longrightarrow> split_lines (l @ newline @ s) cur = (rev cur @ l) # split_lines s []"
  by (induction l arbitrary: cur) (auto simp: newline_def)

lemma after_prefix_append: "CHR '']'' \<notin> set l \<Longrightarrow> after_prefix (l @ ''] 0x'' @ s) = s"
  by (simp add: after_prefix_def dropWhile_append)

lemma chunks_concat: "0 < n \<Longrightarrow> concat (chunks n xs) = xs"
  by (induction n xs rule: chunks.induct) (subst chunks.simps, simp)

lemma read_printed_lines:
  "read_printed (concat (map (\<lambda>(i, chunk).
     ''['' @ pad_spaces 2 (fmt_dec i) @ ''] 0x'' @ concat (map fmt_02x chunk) @ newline) ics)) = concat (map snd ics)"
proof (induction ics)
  case (Cons ic ics)
  obtain i bs where ic: "ic = (i, bs)"
    by (cases ic)
  let ?l = "''['' @ pad_spaces 2 (fmt_dec i)" and ?d = "concat (map fmt_02x bs)"
  have plain: "CHR '']'' \<notin> set ?l" "CHR 0x0A \<notin> set (?l @ ''] 0x'' @ ?d)"
    using fmt_radix_plain [of 10 _ i] by (auto simp: pad_spaces_def fmt_dec_def dest: fmt_02x_plain)
  have "read_printed ((?l @ ''] 0x'' @ ?d) @ newline @ s) = bs @ read_printed s" for s
    using unhex_digits [of bs "[]"] unfolding read_printed_def split_lines_append [OF plain(2)]
    by (simp only: rev.simps append_Nil list.map concat.simps after_prefix_append [OF plain(1), simplified append_assoc] append_assoc
        append_Nil2 unhex.simps)
  with Cons ic show ?case
    by simp
qed (simp add: read_printed_def)

section \<open>The initial state\<close>

lemma read_load_segments:
  "wf_memory m \<Longrightarrow> list_all (\<lambda>s. length (seg_data s) \<le> 2 ^ 32) segs \<Longrightarrow>
    read_u8 (load_segments m segs) = fold (\<lambda>s f. overlay f (vaddr s) (seg_data s)) segs (read_u8 m)"
  by (induction segs arbitrary: m) (simp_all add: mem_laws keeps_wf)

section \<open>Properties\<close>

text \<open>C31. The processor starts in the image of the program: the program counter is the entry point,
  the stack pointer is the default one, every other register is zero, and each byte of memory is
  that of the last segment whose file data covers it, or zero (so the zero-filled tail of a segment
  is zero only where no other segment's data lies).\<close>

theorem processor_starts_in_image:
  assumes "list_all (\<lambda>s. length (seg_data s) \<le> 2 ^ 32) (segments prog)"
  shows "cpu_pc (new_cpu prog) = entry prog \<and> cpu_steps (new_cpu prog) = 0 \<and> wf_cpu (new_cpu prog) \<and>
    read_u8 (cpu_mem (new_cpu prog)) =
      fold (\<lambda>s f. overlay f (vaddr s) (seg_data s)) (segments prog) (\<lambda>_. 0) \<and>
    map (\<lambda>r. read_reg (new_cpu prog) (of_nat r)) [0..<32] = (replicate 32 0)[2 := DEFAULT_STACK_TOP]"
proof -
  have "read_u8 new_memory = (\<lambda>_. 0)"
    by (rule ext) simp
  with read_load_segments [OF wf_new_memory assms]
  have "read_u8 (cpu_mem (new_cpu prog)) = fold (\<lambda>s f. overlay f (vaddr s) (seg_data s)) (segments prog) (\<lambda>_. 0)"
    by (simp add: new_cpu_def Let_def)
  moreover have "map (\<lambda>r. read_reg (new_cpu prog) (of_nat r)) [0..<32] = (replicate 32 0)[2 := DEFAULT_STACK_TOP]"
  proof (rule nth_equalityI)
    fix r
    assume "r < length (map (\<lambda>r. read_reg (new_cpu prog) (of_nat r)) [0..<32])"
    then have "r < 32"
      by simp
    then have "unat (of_nat r :: u32) = r"
      by (simp add: unat_of_nat)
    with \<open>r < 32\<close> show "map (\<lambda>r. read_reg (new_cpu prog) (of_nat r)) [0..<32] ! r = (replicate 32 0)[2 := DEFAULT_STACK_TOP] ! r"
      by (auto simp: read_reg_def new_cpu_def Let_def nth_list_update unat_eq_0)
  qed simp
  ultimately show ?thesis
    by (simp add: wf_new_cpu) (simp add: new_cpu_def Let_def)
qed

text \<open>C32. What the runner prints determines the public output: the plain digits and the numbered
  32-byte lines both read back to exactly the bytes of the output.\<close>

theorem printed_output_reads_back:
  "unhex (print_hex out) = out \<and> read_printed (print_chunks out) = out"
proof -
  have "unhex (print_hex out) = out"
    using unhex_digits [of out newline] by (simp add: print_hex_def newline_def)
  moreover have "read_printed (print_chunks out) = concat (map snd (enumerate 0 (chunks 32 out)))"
    unfolding print_chunks_def by (rule read_printed_lines)
  ultimately show ?thesis
    by (simp add: chunks_concat)
qed

text \<open>C33. The run command, end to end: with a loadable file and readable input, the machine's loop on
  the program's image ends after at most the limit of steps in a well-formed state, and the command's
  result is what that end is: the printed public output exactly when a terminating instruction was
  reached, the processor's error or a panic otherwise. It does not end only if a loop inside one
  instruction's host code does not.\<close>

theorem run_command_outcome:
  assumes "file_read w elf = Inr bytes" and "load_rv32_elf minimal_parse bytes = Loaded prog"
    and "read_input w input = (Inr data :: ('p, u8 list) cmd)"
  shows "\<exists>r c h. run_ends (handle X) max_steps (new_cpu prog) (new_handler data) (r, c, h) \<and>
    wf_cpu c \<and> cpu_steps c \<le> max_steps \<and>
    (cmd_run X (minimal_parse :: u8 list \<Rightarrow> 'p + elf_file) w elf input max_steps hex =
      (case r of
         Inr code \<Rightarrow> Inr (if hex then print_hex (io_output (io h)) else print_chunks (io_output (io h)))
       | Inl (Failed e) \<Rightarrow> Inl (CpuFailure e)
       | Inl (Panicked msg) \<Rightarrow> Inl CmdPanic
       | Inl Diverged \<Rightarrow> Inl CmdDiverges))"
proof -
  have "cpu_steps (new_cpu prog) \<le> max_steps"
    by (simp add: new_cpu_def Let_def)
  have t: "same_tables (new_handler data) (new_handler data)"
    by simp
  obtain r c h where r: "run (handle X) max_steps (new_cpu prog) (new_handler data) =
      (if r = Inl Diverged then None else Some (r, c, h))"
    "run_ends (handle X) max_steps (new_cpu prog) (new_handler data) (r, c, h)"
    using machine.run_outcome [OF wf_new_cpu [of prog] t, of X max_steps] by auto
  moreover have "wf_cpu c \<and> cpu_steps c \<le> max_steps"
    using machine.run_ends_keeps [OF r(2) wf_new_cpu t \<open>cpu_steps (new_cpu prog) \<le> max_steps\<close>] by blast
  moreover have "cmd_run X minimal_parse w elf input max_steps hex =
      (case r of
         Inr code \<Rightarrow> Inr (if hex then print_hex (io_output (io h)) else print_chunks (io_output (io h)))
       | Inl (Failed e) \<Rightarrow> Inl (CpuFailure e)
       | Inl (Panicked msg) \<Rightarrow> Inl CmdPanic
       | Inl Diverged \<Rightarrow> Inl CmdDiverges)"
    using assms r(1)
    by (auto simp: cmd_run_def read_file_def load_elf_def Let_def split: sum.split fault.split)
  ultimately show ?thesis
    by blast
qed

section \<open>Witnesses\<close>

text \<open>A file whose only segment is a terminating instruction at address zero.\<close>

definition tiny_parse :: "u8 list \<Rightarrow> unit + elf_file" where
  "tiny_parse bytes = Inr \<lparr>e_machine = 243, e_type = 2, e_entry = 0, phdrs = Some [\<lparr>p_type = 1, p_flags = 5,
     p_offset = 0, p_vaddr = 0, p_filesz = 4, p_memsz = 4\<rparr>]\<rparr>"

definition tiny_program :: loaded_program where
  "tiny_program = \<lparr>entry = 0, segments = [\<lparr>vaddr = 0, mem_size = 4, writable = False, executable = True,
     seg_data = [0x0b, 0, 0, 0]\<rparr>]\<rparr>"

definition tiny_files :: files where
  "tiny_files = \<lparr>file_read = (\<lambda>path. if path = ''guest'' then Inr [0x0b, 0, 0, 0] else Inl ''not found''),
     stdin_read = Inr []\<rparr>"

lemma tiny_loads: "load_rv32_elf tiny_parse [0x0b, 0, 0, 0] = Loaded tiny_program"
  by (simp add: load_rv32_elf_def tiny_parse_def tiny_program_def slice_bytes_def EM_RISCV_def ET_EXEC_def
      PT_LOAD_def PF_W_def PF_X_def)

theorem processor_starts_in_image_witness:
  "read_u8 (cpu_mem (new_cpu tiny_program)) 0 = 0x0b \<and> read_u8 (cpu_mem (new_cpu tiny_program)) 4 = 0"
proof -
  have "list_all (\<lambda>s. length (seg_data s) \<le> 2 ^ 32) (segments tiny_program)"
    by (simp add: tiny_program_def)
  from processor_starts_in_image [OF this] show ?thesis
    by (simp add: tiny_program_def overlay_def)
qed

theorem run_command_outcome_witness:
  "\<exists>r c h. run_ends (handle example_externals) 10 (new_cpu tiny_program) (new_handler []) (r, c, h) \<and>
    cpu_steps c \<le> 10 \<and>
    (cmd_run example_externals tiny_parse tiny_files ''guest'' None 10 True =
      (case r of
         Inr code \<Rightarrow> Inr (print_hex (io_output (io h)))
       | Inl (Failed e) \<Rightarrow> Inl (CpuFailure e)
       | Inl (Panicked msg) \<Rightarrow> Inl CmdPanic
       | Inl Diverged \<Rightarrow> Inl CmdDiverges))"
proof -
  have "file_read tiny_files ''guest'' = Inr [0x0b, 0, 0, 0]"
    "read_input tiny_files None = (Inr [] :: (unit, u8 list) cmd)"
    by (simp_all add: tiny_files_def read_input_def)
  from run_command_outcome [OF this(1) tiny_loads this(2), of example_externals 10 True] show ?thesis
    by (auto cong: sum.case_cong)
qed

end
