(* ===== verification/Tools.thy ===== *)
theory Tools
  imports Runner
begin

text \<open>
  The two tools beside the interpreter: \<^verbatim>\<open>tools/input-prep\<close>, which writes the byte stream a guest reads,
  and \<^verbatim>\<open>tools/canonical-gas\<close>, which re-runs a block. Both are thin programs over other crates
  (bincode, openvm, reth), whose functions are parameters; diagnostics on the error stream and the
  failures of writing the result are not modelled.
\<close>

section \<open>Preparing the input\<close>

text \<open>An error: the context and the cause.\<close>

datatype tool_error = ToolError string string

type_synonym 'a tool = "tool_error + 'a"

definition tool_step :: "string \<Rightarrow> string + 'a \<Rightarrow> ('a \<Rightarrow> 'b tool) \<Rightarrow> 'b tool" where
  "tool_step ctxt r f = (case r of Inl e \<Rightarrow> Inl (ToolError ctxt e) | Inr v \<Rightarrow> f v)"

lemma tool_step_Inr_iff: "tool_step ctxt r f = Inr v \<longleftrightarrow> (\<exists>x. r = Inr x \<and> f x = Inr v)"
  by (cases r) (simp_all add: tool_step_def)

datatype destination = StandardOutput | OutputFile string

text \<open>\<^verbatim>\<open>bincode\<close>'s decoder returns the value with the number of bytes it read.\<close>

definition input_prep :: "(u8 list \<Rightarrow> string + ('i \<times> nat)) \<Rightarrow> ('i \<Rightarrow> string + u32 list) \<Rightarrow> files
    \<Rightarrow> string \<Rightarrow> string \<Rightarrow> (destination \<times> u8 list) tool" where
  "input_prep decode_from_slice to_vec w cache out =
     tool_step (''reading cache '' @ cache) (file_read w cache) (\<lambda>bytes.
     tool_step ''bincode decode StatelessExecutorInput'' (decode_from_slice bytes) (\<lambda>(input, _).
     tool_step ''openvm::serde::to_vec'' (to_vec input) (\<lambda>words.
       let out_bytes = concat (map to_le_bytes words)
       in Inr (if out = ''-'' then StandardOutput else OutputFile out, out_bytes))))"

section \<open>Canonical gas\<close>

record ('pre, 'state, 'db, 'block, 'recovered) reth =
  decode_witness :: "u8 list \<Rightarrow> string + ('pre \<times> nat)"
  build_input :: "'pre \<Rightarrow> string + 'state"
  witness_db :: "'state \<Rightarrow> string + 'db"
  current_block :: "'state \<Rightarrow> 'block"
  try_into_recovered :: "'block \<Rightarrow> string + 'recovered"
  execute_block :: "'db \<Rightarrow> 'recovered \<Rightarrow> string + nat list"
  block_number :: "'block \<Rightarrow> nat"
  block_hash_hex :: "'block \<Rightarrow> string"

text \<open>The standard output: the cumulative gas of every receipt, between the block's number and hash.\<close>

definition print_gas :: "nat \<Rightarrow> string \<Rightarrow> nat list \<Rightarrow> string" where
  "print_gas number hash receipts =
     ''# canonical per-tx cumulative gas (block '' @ fmt_dec number @ '')'' @ newline @
     concat (map (\<lambda>(i, gas). ''('' @ fmt_dec i @ '', '' @ fmt_dec gas @ '')'' @ newline) (enumerate 0 receipts)) @
     ''# block hash: 0x'' @ hash @ newline"

definition canonical_gas :: "('pre, 'state, 'db, 'block, 'recovered) reth \<Rightarrow> files \<Rightarrow> string \<Rightarrow> string tool" where
  "canonical_gas R w cache =
     tool_step (''reading '' @ cache) (file_read w cache) (\<lambda>bytes.
     tool_step '''' (decode_witness R bytes) (\<lambda>(pre_input, _).
     tool_step ''input build'' (build_input R pre_input) (\<lambda>input.
     tool_step ''witness_db'' (witness_db R input) (\<lambda>db.
     tool_step ''recover senders'' (try_into_recovered R (current_block R input)) (\<lambda>block.
     tool_step ''execute'' (execute_block R db block) (\<lambda>receipts.
       Inr (print_gas (block_number R (current_block R input)) (block_hash_hex R (current_block R input)) receipts)))))))"

section \<open>Words in memory\<close>

lemma read_words_cong:
  assumes "\<And>j. j < n * k \<Longrightarrow> read_u8 m (p + of_nat j) = read_u8 m' (p + of_nat j)"
  shows "read_words m p k n = read_words m' p k n"
proof -
  have "i * k + j < n * k" if "i < n" "j < k" for i j
  proof -
    have "i * k + j < Suc i * k"
      using that(2) by simp
    also have "\<dots> \<le> n * k"
      using that(1) by (intro mult_le_mono1) simp
    finally show ?thesis .
  qed
  then show ?thesis
    unfolding read_words_def
    by (auto intro!: map_cong arg_cong [where f = from_le_bytes] assms simp del: of_nat_add of_nat_mult)
qed

lemma read_words_vec:
  fixes ws :: "'a::len word list"
  assumes "8 * k = LENGTH('a)" "length ws * k \<le> 2 ^ 32"
    and "read_vec m p (length ws * k) = concat (map to_le_bytes ws)"
  shows "read_words m p k (length ws) = ws"
proof -
  let ?m = "write_slice new_memory p (concat (map to_le_bytes ws))"
  have len: "length (concat (map to_le_bytes ws)) = length ws * k"
    unfolding assms(3) [symmetric] by simp
  have "read_vec ?m p (length ws * k) = read_vec m p (length ws * k)"
    using read_vec_write_slice [OF wf_new_memory, of "concat (map to_le_bytes ws)" p] len assms(2,3) by simp
  then have "read_u8 m (p + of_nat j) = read_u8 ?m (p + of_nat j)" if "j < length ws * k" for j
    using that by (metis nth_read_vec)
  then have "read_words m p k (length ws) = (read_words ?m p k (length ws) :: 'a word list)"
    by (rule read_words_cong)
  also have "\<dots> = ws"
    by (rule read_words_write_slice [OF wf_new_memory assms(1,2)])
  finally show ?thesis .
qed

lemma length_word_bytes: "length (concat (map to_le_bytes (ws :: u32 list))) = length ws * 4"
  by (induction ws) simp_all

text \<open>C40. The prepared stream is what the guest deserialises: when \<^verbatim>\<open>input-prep\<close> succeeds and its output is
  given to the interpreter as the input, the guest's HintInput, HINT_STOREW and HINT_BUFFER put into
  memory the number of bytes and, at the buffer, exactly the 32-bit words the serialisation of the
  decoded cache consists of.\<close>

theorem prepared_input_reaches_guest:
  assumes "input_prep decode_from_slice to_vec w cache out = Inr (dest, bytes)" and "length bytes + 4 \<le> 2 ^ 32"
    and "wf_memory (cpu_mem c)" and "is_hint_input i1" and "is_hint_storew i2" and "is_hint_buffer i3"
    and "unat (read_reg c (rs1 i3)) = length bytes div 4"
    and "disjoint_ranges (read_reg c (rd i3)) (length bytes) (read_reg c (rd i2)) 4"
  shows "\<exists>raw input k words. file_read w cache = Inr raw \<and> decode_from_slice raw = Inr (input, k) \<and>
    to_vec input = Inr words \<and>
    (case handle X i1 c (new_handler bytes) of (r1, c1, h1) \<Rightarrow> case handle X i2 c1 h1 of (r2, c2, h2) \<Rightarrow>
     case handle X i3 c2 h2 of (r3, c3, h3) \<Rightarrow>
       [r1, r2, r3] = [Inr Continue, Inr Continue, Inr Continue] \<and>
       unat (read_u32 (cpu_mem c3) (read_reg c (rd i2))) = 4 * length words \<and>
       read_words (cpu_mem c3) (read_reg c (rd i3)) 4 (length words) = words)"
proof -
  obtain raw input k ws where prep: "file_read w cache = Inr raw" "decode_from_slice raw = Inr (input, k)"
    "to_vec input = Inr ws" "bytes = concat (map to_le_bytes ws)"
    using assms(1) by (auto simp: input_prep_def tool_step_Inr_iff Let_def)
  have len: "length bytes = length ws * 4"
    by (simp only: prep(4) length_word_bytes)
  then have words: "(length bytes + 3) div 4 = length bytes div 4" "4 * ((length bytes + 3) div 4) = length bytes"
    by simp_all
  have streams: "input_streams (io (new_handler bytes)) = bytes # []"
    by (simp add: new_handler_def with_input_def)
  note protocol = input_protocol [OF assms(3) streams assms(2) assms(4-6) assms(7) [folded words(1)], unfolded words(2),
      OF assms(8), of X]
  have "read_words m p 4 (length ws) = ws" if "read_vec m p (length bytes) = bytes" for m p
    using that assms(2) by (intro read_words_vec) (simp_all add: len prep(4) [symmetric])
  with protocol prep(1-3) len show ?thesis
    by (auto split: prod.splits)
qed

theorem prepared_input_reaches_guest_witness:
  "case handle example_externals (I_type 0 0 3 0 0x0b) input_cpu (new_handler (to_le_bytes (7 :: u32))) of (r1, c1, h1) \<Rightarrow>
    case handle example_externals (I_type 0 0 1 10 0x0b) c1 h1 of (r2, c2, h2) \<Rightarrow>
    case handle example_externals (I_type 1 12 1 11 0x0b) c2 h2 of (r3, c3, h3) \<Rightarrow>
      read_words (cpu_mem c3) 0x100 4 1 = [7 :: u32]"
proof -
  let ?w = "\<lparr>file_read = \<lambda>_. Inr [], stdin_read = Inr []\<rparr>"
  have prep: "input_prep (\<lambda>bs. Inr (bs, length bs)) (\<lambda>_. Inr [7]) ?w ''cache.bin'' ''-'' =
      Inr (StandardOutput, to_le_bytes (7 :: u32))"
    by (simp add: input_prep_def tool_step_def)
  have i: "is_hint_input (I_type 0 0 3 0 0x0b)" "is_hint_storew (I_type 0 0 1 10 0x0b)"
    "is_hint_buffer (I_type 1 12 1 11 0x0b)" "unat (read_reg input_cpu (rs1 (I_type 1 12 1 11 0x0b))) = 4 div 4"
    "read_reg input_cpu (rd (I_type 1 12 1 11 0x0b)) = 0x100" "read_reg input_cpu (rd (I_type 0 0 1 10 0x0b)) = 0x200"
    "disjoint_ranges 0x100 4 0x200 4"
    by code_simp+
  have m: "wf_memory (cpu_mem input_cpu)"
    by (simp add: input_cpu_def keeps_wf)
  have l: "length (to_le_bytes (7 :: u32)) = 4"
    by simp
  from prepared_input_reaches_guest [OF prep _ m i(1-3), where X = example_externals, unfolded l i(5,6), OF _ i(4,7)]
  show ?thesis
    by (auto split: prod.splits)
qed

end
