(* ===== verification/Tables.thy ===== *)
theory Tables
  imports Ecc
begin

text \<open>
  The shipped tables of \<^verbatim>\<open>precompiles/src/config.rs\<close> against the published parameters: the two
  pairing-friendly families by their polynomials at the curve's seed, the primes of SEC 2 and FIPS 186
  as sums of powers of two, and the curves' coefficients by the standard base points.
\<close>

section \<open>The published parameters\<close>

text \<open>Barreto-Naehrig curves: the field and the order of the group.\<close>

definition bn_field :: "int \<Rightarrow> int" where
  "bn_field x = 36 * x ^ 4 + 36 * x ^ 3 + 24 * x\<^sup>2 + 6 * x + 1"

definition bn_order :: "int \<Rightarrow> int" where
  "bn_order x = 36 * x ^ 4 + 36 * x ^ 3 + 18 * x\<^sup>2 + 6 * x + 1"

text \<open>Barreto-Lynn-Scott curves of embedding degree twelve.\<close>

definition bls_order :: "int \<Rightarrow> int" where
  "bls_order x = x ^ 4 - x\<^sup>2 + 1"

definition bls_field :: "int \<Rightarrow> int" where
  "bls_field x = (x - 1)\<^sup>2 * bls_order x div 3 + x"

definition bn254_seed :: int where "bn254_seed = 4965661367192848881"

definition bls12_381_seed :: int where "bls12_381_seed = - 0xd201000000010000"

definition secp256k1_field :: int where "secp256k1_field = 2 ^ 256 - 2 ^ 32 - 977"

definition p256_field :: int where "p256_field = 2 ^ 256 - 2 ^ 224 + 2 ^ 192 + 2 ^ 96 - 1"

text \<open>The orders of the two standard groups, as in the standards.\<close>

definition secp256k1_order :: int where
  "secp256k1_order = 0xFFFFFFFFFFFFFFFFFFFFFFFFFFFFFFFEBAAEDCE6AF48A03BBFD25E8CD0364141"

definition p256_order :: int where
  "p256_order = 0xFFFFFFFF00000000FFFFFFFFFFFFFFFFBCE6FAADA7179E84F3B9CAC2FC632551"

text \<open>The base points of the four curves.\<close>

definition base_points :: "point list" where
  "base_points =
     [(1, 2),
      (0x79BE667EF9DCBBAC55A06295CE870B07029BFCDB2DCE28D959F2815B16F81798,
       0x483ADA7726A3C4655DA4FBFC0E1108A8FD17B448A68554199C47D08FFB10D4B8),
      (0x6B17D1F2E12C4247F8BCE6E563A440F277037D812DEB33A0F4A13945D898C296,
       0x4FE342E2FE1A7F9B8EE7EB4A7C0F9E162BCE33576B315ECECBB6406837BF51F5),
      (0x17F1D3A73197D7942695638C4FA9AC0FC3688C4F9774B905A14E3A3F171BAC586C55E83FF97A1AEFFB3AF00ADB22C6BB,
       0x08B3F481E3AAA0F1A09E30ED741D8AE4FCF5E095D5D00AF600DB18CB2C04B3EDD03CC744A2888AE40CAA232946C5E7E1)]"

section \<open>The base points lie on the curves\<close>

text \<open>Membership by the quotient of the two sides' difference.\<close>

lemma on_curve_quotient:
  assumes "x * x * x + ce_a e * x + ce_b e = y * y + ce_modulus e * k"
  shows "on_curve e (x, y)"
  unfolding on_curve_def fst_conv snd_conv power3_eq_cube assms by simp

lemma base_points_on_curves: "list_all2 on_curve default_curves base_points"
proof -
  have "on_curve (default_curves ! 0) (base_points ! 0)"
    by (simp add: default_curves_def base_points_def on_curve_def)
  moreover have "on_curve (default_curves ! 1) (base_points ! 1)"
    unfolding default_curves_def base_points_def nth_Cons_numeral nth_Cons_0 One_nat_def nth_Cons_Suc
    by (rule on_curve_quotient [where k = 1442042049659660869506300006036683750029629333882594701370927246876626245108435922902327776681700708714008192087431130951749952236093997894375239788520937])
      (simp only: curve_entry.select_convs arith_simps mult_zero_left add_0_right)
  moreover have "on_curve (default_curves ! 2) (base_points ! 2)"
    unfolding default_curves_def base_points_def numeral_2_eq_2 nth_Cons_0 nth_Cons_Suc
    by (rule on_curve_quotient [where k = 981570988164258562257936101525215858910690391106138407341175333813841188485250211304702756335769806812218430760112952189411297841053183197247161910150894])
      (simp only: curve_entry.select_convs arith_simps)
  moreover have "on_curve (default_curves ! 3) (base_points ! 3)"
    unfolding default_curves_def base_points_def numeral_3_eq_3 nth_Cons_0 nth_Cons_Suc
    by (rule on_curve_quotient [where k = 12506572086599948795803714834700402461908899008324509230889159048871317058432751132642872816153641622235697324105511109829958834348038099939851677855036217207869206404413132829503111843703657692410843258401337236391136702025884178])
      (simp only: curve_entry.select_convs arith_simps mult_zero_left add_0_right)
  ultimately show ?thesis
    by (simp add: default_curves_def base_points_def)
qed

section \<open>The shipped tables\<close>

text \<open>The rows in the order in which the guest counts them, with the published numbers.\<close>

definition published_fields :: "(string \<times> nat \<times> int) list" where
  "published_fields =
     [(''bn254_fp'', 32, bn_field bn254_seed),
      (''bn254_fr'', 32, bn_order bn254_seed),
      (''secp256k1_fp'', 32, secp256k1_field),
      (''secp256k1_fr'', 32, secp256k1_order),
      (''p256_fp'', 32, p256_field),
      (''p256_fr'', 32, p256_order),
      (''bls12_381_fp'', 48, bls_field bls12_381_seed),
      (''bls12_381_fr'', 32, bls_order bls12_381_seed)]"

definition published_curves :: "(string \<times> nat \<times> int \<times> int) list" where
  "published_curves =
     [(''bn254_g1'', 32, bn_field bn254_seed, 0),
      (''secp256k1'', 32, secp256k1_field, 0),
      (''p256'', 32, p256_field, - 3),
      (''bls12_381_g1'', 48, bls_field bls12_381_seed, 0)]"

lemmas published_numbers = bn_field_def bn_order_def bls_field_def bls_order_def bn254_seed_def bls12_381_seed_def
  secp256k1_field_def p256_field_def secp256k1_order_def p256_order_def

lemma shipped_fields:
  "map (\<lambda>e. (me_name e, me_limb_bytes e, int (me_modulus e))) default_moduli = published_fields"
  by (simp add: default_moduli_def published_fields_def published_numbers)

lemma shipped_curves:
  "map (\<lambda>e. (ce_name e, ce_coord_bytes e, int (ce_modulus e))) default_curves =
    map (\<lambda>(name, n, p, a). (name, n, p)) published_curves"
  "map (\<lambda>e. int (ce_a e)) default_curves = map (\<lambda>(name, n, p, a). a mod p) published_curves"
  by (simp_all add: default_curves_def published_curves_def published_numbers)

lemma shipped_complex:
  "map (\<lambda>e. (me_name e, me_limb_bytes e, int (me_modulus e))) default_complex =
    [(''bn254_fp2'', 32, bn_field bn254_seed), (''bls12_381_fp2'', 48, bls_field bls12_381_seed)]"
  by (simp add: default_complex_def published_numbers)

text \<open>C39. The shipped configuration is the published one, row by row in the order of the guest's indices: the
  names, the operand widths and the moduli of the eight fields, of the two quadratic extensions and of the
  four curves are those of the curve families at their seeds and of the standards, the coefficients \<open>a\<close>
  are the standard ones, and the coefficients \<open>b\<close> are reduced and such that the standard base points lie on the
  curves, which fixes them; the two pairings are in the order of their curves' fields. And it is well formed:
  the moduli are odd, above three and fit their widths, \<open>-1\<close> is not a square in the extended fields by
  their residue modulo 4, the curves have a non-zero discriminant and each table is small enough for
  its index and operation to share the seven bits of \<^verbatim>\<open>funct7\<close>.\<close>

theorem default_tables_well_formed:
  "map (\<lambda>e. (me_name e, me_limb_bytes e, int (me_modulus e))) default_moduli = published_fields \<and>
   map (\<lambda>e. (me_name e, me_limb_bytes e, int (me_modulus e))) default_complex =
     [(''bn254_fp2'', 32, bn_field bn254_seed), (''bls12_381_fp2'', 48, bls_field bls12_381_seed)] \<and>
   map (\<lambda>e. (ce_name e, ce_coord_bytes e, int (ce_modulus e))) default_curves =
     map (\<lambda>(name, n, p, a). (name, n, p)) published_curves \<and>
   map (\<lambda>e. int (ce_a e)) default_curves = map (\<lambda>(name, n, p, a). a mod p) published_curves \<and>
   list_all2 on_curve default_curves base_points \<and>
   default_pairings = [''bn254'', ''bls12_381''] \<and>
   list_all entry_ok default_moduli \<and> list_all entry_ok default_complex \<and>
   list_all (\<lambda>e. me_modulus e mod 4 = 3) default_complex \<and> list_all curve_ok default_curves \<and>
   list_all (\<lambda>e. list_ex (\<lambda>m. me_modulus m = ce_modulus e \<and> me_limb_bytes m = ce_coord_bytes e) default_moduli) default_curves \<and>
   list_all (\<lambda>e. list_ex (\<lambda>m. me_modulus m = me_modulus e \<and> me_limb_bytes m = me_limb_bytes e) default_moduli) default_complex \<and>
   length default_moduli * unat MODULAR_MAX_KINDS \<le> 128 \<and> length default_complex * unat COMPLEX_MAX_KINDS \<le> 128 \<and>
   length default_curves * unat SW_MAX_KINDS \<le> 128 \<and> length default_pairings * unat PAIRING_MAX_KINDS \<le> 128"
proof -
  have "list_all (\<lambda>e. list_ex (\<lambda>m. me_modulus m = ce_modulus e \<and> me_limb_bytes m = ce_coord_bytes e) default_moduli) default_curves"
    "list_all (\<lambda>e. list_ex (\<lambda>m. me_modulus m = me_modulus e \<and> me_limb_bytes m = me_limb_bytes e) default_moduli) default_complex"
    by (simp_all add: default_curves_def default_complex_def default_moduli_def)
  moreover have "length default_moduli * unat MODULAR_MAX_KINDS \<le> 128" "length default_complex * unat COMPLEX_MAX_KINDS \<le> 128"
    "length default_curves * unat SW_MAX_KINDS \<le> 128" "length default_pairings * unat PAIRING_MAX_KINDS \<le> 128"
    by (simp_all add: default_curves_def default_complex_def default_moduli_def default_pairings_def
        MODULAR_MAX_KINDS_def COMPLEX_MAX_KINDS_def SW_MAX_KINDS_def PAIRING_MAX_KINDS_def)
  moreover note shipped_fields shipped_complex shipped_curves base_points_on_curves default_moduli_ok
    default_complex_ok default_complex_3_mod_4 default_curves_ok default_pairings_def
  ultimately show ?thesis
    by (intro conjI)
qed

end
