(* ===== verification/Invariant.thy ===== *)
theory Invariant
  imports Handler
begin

text \<open>
  What no instruction can break: the invariants of every state that a program reaches, over the steps
  of \<^verbatim>\<open>rv32im/src/cpu.rs\<close> with the handler of \<^verbatim>\<open>precompiles/src/lib.rs\<close>, and the independence of a run
  from where its limit interrupts it.
\<close>

section \<open>Program counters are even\<close>

lemma even_offsets [simp]: "even (imm_b insn)" "even (imm_j insn)" "even (x AND NOT 1 :: u32)"
  by (simp_all add: imm_b_def imm_j_def even_or_iff even_push_bit_iff even_and_iff even_not_iff)

text \<open>A group's executor that succeeds from an even program counter.\<close>

definition even_after :: "unit res \<times> cpu \<Rightarrow> bool" where
  "even_after r \<longleftrightarrow> (\<forall>u. fst r = Inr u \<longrightarrow> even (cpu_pc (snd r)))"

lemma groups_even:
  assumes "even (cpu_pc c)"
  shows "even_after (exec_branch insn c)" "even_after (exec_load insn c)" "even_after (exec_store insn c)"
    "even_after (exec_op_imm insn c)" "even_after (exec_op insn c)"
  using assms
  by (simp_all add: even_after_def exec_branch_def exec_load_def exec_store_def exec_op_imm_def exec_op_def Let_def
      split: option.split sum.split)

definition even_step :: "step_outcome res \<times> cpu \<times> 'h \<Rightarrow> bool" where
  "even_step r \<longleftrightarrow> (fst r = Inr Continue \<longrightarrow> even (cpu_pc (fst (snd r))))"

lemma then_continue_even: "even_after r \<Longrightarrow> even_step (then_continue r h)"
  by (cases r) (auto simp: even_after_def even_step_def then_continue_def split: sum.split)

lemma step_even:
  assumes "even (cpu_pc c)" "\<not> custom_opcode (read_u32 (cpu_mem c) (cpu_pc c))"
  shows "even_step (step handler c h)"
proof -
  note groups = groups_even [OF assms(1), THEN then_continue_even]
  have jump: "even p \<Longrightarrow> even_step (Inr Continue, c\<lparr>cpu_pc := p\<rparr>, h)" for c p
    by (simp add: even_step_def)
  have "even (cpu_pc c + 4)" "even (cpu_pc c + imm_j insn)" for insn
    using assms(1) by simp_all
  note jumps = this [THEN jump] even_offsets(3) [THEN jump]
  have err: "even_step (Inl e, c, h)" for e
    by (simp add: even_step_def)
  show ?thesis
    using assms unfolding step_def Let_def custom_opcode_def
    by (simp only: if_split de_Morgan_disj simp_thms groups jumps err)
qed

section \<open>The hint stream holds whole words\<close>

definition whole_words :: "precompile_handler \<Rightarrow> bool" where
  "whole_words h \<longleftrightarrow> 4 dvd length (hint_stream (io h)) \<and> list_all (\<lambda>e. 4 dvd me_limb_bytes e) (moduli h)"

lemma pad4_words: "4 dvd length (pad4 s)"
proof -
  have "length (pad4 s) = 4 * ((length s + 3) div 4)"
    by (simp only: pad_words pad4_eq length_append length_replicate)
  then show ?thesis
    by simp
qed

lemma push_words: "whole_words h \<Longrightarrow> 4 dvd length bs \<Longrightarrow> whole_words (push_hint h bs)"
  by (simp add: whole_words_def push_hint_def)

lemma replace_words: "whole_words h \<Longrightarrow> 4 dvd length bs \<Longrightarrow> whole_words (replace_hint_stream h bs)"
  by (simp add: whole_words_def replace_hint_stream_def)

lemma handle_custom0_words:
  assumes "whole_words h" "handle_custom0 X insn f3 c h = (Inr u, c', h')"
  shows "whole_words h'"
proof -
  have "store_hint h c a (4 * k) = (Inr u, c', h') \<Longrightarrow> whole_words h'" for a k
    using assms(1) by (auto simp: store_hint_def read_hint_bytes_eq whole_words_def dvd_diff_nat)
  from this [of _ 1] this [of _ "unat (read_reg c (rs1 insn))"] show ?thesis
    using assms
    by (auto simp: handle_custom0_def Let_def continue_with_def whole_words_def write_output_def hint_input_def pad4_words
        mult.commute split: if_splits sum.splits prod.splits list.splits)
qed

lemma hint_bytes_words: "4 dvd length (bn_fq12_to_openvm_bytes T f)" "4 dvd length (bls_fq12_to_openvm_bytes L g)"
proof -
  have "length (bn_fq_to_le_bytes T x) = 32" for x
    by (simp add: bn_fq_to_le_bytes_def Let_def min_def)
  then show "4 dvd length (bn_fq12_to_openvm_bytes T f)"
    by (simp add: bn_fq12_to_openvm_bytes_def bn_fq2_to_le_bytes_def)
  have "length (fq_to_le48 L x) = 48" for x
    by (simp add: fq_to_le48_def Let_def min_def)
  then show "4 dvd length (bls_fq12_to_openvm_bytes L g)"
    by (simp add: bls_fq12_to_openvm_bytes_def bls_fq2_to_le_def)
qed

lemma handle_pairing_words:
  assumes "whole_words h" "handle_pairing B L h c insn = (Inr u, h')"
  shows "whole_words h'"
  using assms
  by (auto simp: handle_pairing_def bn_hint_final_exp_def bls_hint_final_exp_def Let_def push_words hint_bytes_words
      split: if_splits sum.splits prod.splits)

lemma handle_modular_words:
  assumes "whole_words h" "handle_modular fill h c insn = (Inr u, c', h')"
  shows "whole_words h'"
proof -
  let ?i = "unat ((drop_bit 25 insn AND 0x7f) div MODULAR_MAX_KINDS)"
  have w: "?i < length (moduli h) \<Longrightarrow> 4 dvd me_limb_bytes (moduli h ! ?i)"
    using assms(1) by (simp add: whole_words_def list_all_length)
  have l: "length (sqrt_hint_bytes f s n) = 4 + n" for f s n
    by (simp add: sqrt_hint_bytes_def)
  show ?thesis
    using assms w
    by (auto simp: handle_modular_def Let_def replace_words l split: if_splits sum.splits prod.splits)
qed

lemma handle_words:
  assumes "whole_words h" "handle X insn c h = (Inr u, c', h')"
  shows "whole_words h'"
proof -
  have "handle_custom1 X insn f3 c h = (Inr u', c1, h1) \<Longrightarrow> whole_words h1" for f3 u' c1 h1
    using assms(1) handle_modular_words [OF assms(1)] handle_pairing_words [OF assms(1)]
    by (auto simp: handle_custom1_def continue_with_def split: if_splits sum.splits prod.splits)
  with assms handle_custom0_words [OF assms(1)] show ?thesis
    by (auto simp: handle_def Let_def split: if_splits sum.splits prod.splits step_outcome.splits)
qed

section \<open>Invariants of a run\<close>

text \<open>A handler that in addition leaves even program counters even.\<close>

locale even_handler = custom_handler handler hinv for handler :: "'h handler" and hinv +
  assumes handler_even: "wf_cpu c \<Longrightarrow> hinv h \<Longrightarrow> even (cpu_pc c) \<Longrightarrow> even_step (handler insn c h)"
begin

lemma reaches_even:
  "reaches handler limit c h c' h' \<Longrightarrow> wf_cpu c \<Longrightarrow> hinv h \<Longrightarrow> cpu_steps c \<le> limit \<Longrightarrow> even (cpu_pc c) \<Longrightarrow>
   even (cpu_pc c')"
proof (induction rule: reaches.induct)
  case (more c h c1 h1 c2 h2)
  note keeps = reaches_keeps [OF more.hyps(1) more.prems(1-3)]
  have "even_step (step handler c1 h1)"
  proof (cases "custom_opcode (read_u32 (cpu_mem c1) (cpu_pc c1))")
    case True
    with keeps more.IH [OF more.prems] show ?thesis
      by (simp add: step_custom handler_even)
  next
    case False
    then show ?thesis
      by (rule step_even [OF more.IH [OF more.prems]])
  qed
  with more.hyps(3) show ?case
    by (simp add: even_step_def)
qed

end

text \<open>The code's handler: its tables are those it was built with, whose widths are whole words, and its
  hint stream holds whole words.\<close>

definition handler_inv :: "precompile_handler \<Rightarrow> precompile_handler \<Rightarrow> bool" where
  "handler_inv t h \<longleftrightarrow> same_tables t h \<and> whole_words h"

lemma handler_inv_words:
  "handler_inv t h \<Longrightarrow> handle X insn c h = (Inr u, c', h') \<Longrightarrow> whole_words h'"
  unfolding handler_inv_def by (blast intro: handle_words)

interpretation guarded: even_handler "handle X" "handler_inv t" for X t
proof unfold_locales
  fix c h insn r c' h'
  assume inv: "wf_cpu c" "handler_inv t h" and st: "handle X insn c h = (r, c', h')"
  have "wf_cpu c' \<and> same_tables t h' \<and> cpu_steps c' = cpu_steps c"
    using machine.handler_keeps [OF inv(1) _ st, of t] inv(2) by (simp add: handler_inv_def)
  moreover have "whole_words h'"
  proof (cases r)
    case (Inl e)
    with handle_ok [OF inv(1), of insn h X] st inv(2) show ?thesis
      by (simp add: handled_ok_def handler_inv_def)
  next
    case (Inr u)
    with handler_inv_words [OF inv(2)] st show ?thesis
      by blast
  qed
  ultimately show "wf_cpu c' \<and> handler_inv t h' \<and> cpu_steps c' = cpu_steps c"
    by (simp add: handler_inv_def)
next
  fix c h insn
  assume "wf_cpu c" "even (cpu_pc c)"
  with handle_ok [of c insn h X] show "even_step (handle X insn c h)"
    by (auto simp: even_step_def handled_ok_def split: prod.splits sum.splits step_outcome.splits if_splits)
qed

text \<open>C34. What holds in every state a program reaches, whatever it does and whatever the third-party code
  returns, when its entry point is even: the register file has 32 registers and the zero register
  holds zero, every page is 4096 bytes, the program counter is even, the step counter is within the
  limit, the configuration is the default one, and the hint stream holds whole words, so that no
  word the guest takes from it is cut short unless it is empty.\<close>

theorem machine_invariant:
  assumes "even (entry prog)" and "reaches (handle X) limit (new_cpu prog) (new_handler input) c h"
  shows "length (cpu_x c) = 32 \<and> cpu_x c ! 0 = 0 \<and> wf_memory (cpu_mem c) \<and> even (cpu_pc c) \<and>
    cpu_steps c \<le> limit \<and> same_tables (new_handler input) h \<and> 4 dvd length (hint_stream (io h))"
proof -
  have c: "wf_cpu (new_cpu prog)" "cpu_steps (new_cpu prog) \<le> limit" "even (cpu_pc (new_cpu prog))"
    using assms(1) wf_new_cpu by (simp_all add: new_cpu_def)
  have h: "handler_inv (new_handler input) (new_handler input)"
    by (simp add: handler_inv_def whole_words_def new_handler_def with_input_def default_moduli_def)
  from guarded.reaches_keeps [OF assms(2) c(1) h c(2)] guarded.reaches_even [OF assms(2) c(1) h c(2,3)]
  show ?thesis
    by (auto simp: wf_cpu_def handler_inv_def whole_words_def)
qed

text \<open>C35. Resuming a run: a run under the limit \<open>n\<close> and a run under a larger limit agree as long as the
  smaller limit is not what stops the first; when it is, the run under the larger limit is the one that
  goes on from the state where the first stopped. The result of a program does not depend on where
  its execution is interrupted.\<close>

theorem interrupted_runs_resume:
  assumes "wf_cpu c" and "n \<le> m" and "run (handle X) n c h = Some (r, c', h')"
  shows "run (handle X) m c h = (if n \<le> cpu_steps c' then run (handle X) m c' h' else Some (r, c', h'))"
  using machine.run_resumes [OF assms(1) _ assms(2,3), of h] by simp

section \<open>Witnesses\<close>

definition nop_program :: loaded_program where
  "nop_program = \<lparr>entry = 0, segments = [\<lparr>vaddr = 0, mem_size = 4, writable = True, executable = True,
     seg_data = [0x13, 0, 0, 0]\<rparr>]\<rparr>"

lemma nop_step:
  "step (handle X) (new_cpu nop_program) h = (Inr Continue, (new_cpu nop_program)\<lparr>cpu_pc := 4\<rparr>, h)"
proof -
  have c: "new_cpu nop_program = example_cpu [(0, [0x13, 0, 0, 0])] []"
    by (simp add: nop_program_def example_cpu_def)
  have u: "[0..<4] = [0, 1, 2, 3 :: nat]"
    by code_simp
  have "read_vec (cpu_mem (new_cpu nop_program)) 0 4 = [0x13, 0, 0, 0]"
    unfolding c read_vec_def u by (simp add: example_cpu_byte)
  then have i: "read_u32 (cpu_mem (new_cpu nop_program)) 0 = 0x13"
    by (simp add: read_u32_bytes from_le_bytes_def)
  have pc: "cpu_pc (new_cpu nop_program) = 0"
    by (simp add: new_cpu_def nop_program_def)
  have f: "opcode 0x13 = OPCODE_OP_IMM" "rd 0x13 = 0" "rs1 0x13 = 0" "funct3 0x13 = 0" "imm_i 0x13 = 0"
    by code_simp+
  show ?thesis
    by (simp add: step_def Let_def pc i f exec_op_imm_def op_imm_value_def write_reg_def then_continue_def)
      (simp add: dispatch_defs)
qed

theorem machine_invariant_witness:
  "even (cpu_pc ((new_cpu nop_program)\<lparr>cpu_pc := 4, cpu_steps := 1\<rparr>)) \<and>
   length (cpu_x ((new_cpu nop_program)\<lparr>cpu_pc := 4, cpu_steps := 1\<rparr>)) = 32"
proof -
  have e: "even (entry nop_program)" "cpu_steps (new_cpu nop_program) = 0"
    by (simp_all add: nop_program_def new_cpu_def)
  have "reaches (handle example_externals) 10 (new_cpu nop_program) (new_handler [])
      (((new_cpu nop_program)\<lparr>cpu_pc := 4\<rparr>)\<lparr>cpu_steps := cpu_steps ((new_cpu nop_program)\<lparr>cpu_pc := 4\<rparr>) + 1\<rparr>) (new_handler [])"
    by (rule reaches.more [OF reaches.here _ nop_step]) (simp add: e)
  from machine_invariant [OF e(1) this] show ?thesis
    by (simp add: e)
qed

theorem interrupted_runs_resume_witness:
  "run (handle example_externals) 5 (new_cpu nop_program) (new_handler []) =
   run (handle example_externals) 5 ((new_cpu nop_program)\<lparr>cpu_pc := 4, cpu_steps := 1\<rparr>) (new_handler [])"
proof -
  let ?c = "(new_cpu nop_program)\<lparr>cpu_pc := 4, cpu_steps := 1\<rparr>"
  have s: "cpu_steps (new_cpu nop_program) = 0"
    by (simp add: new_cpu_def)
  have "run (handle example_externals) 1 ?c (new_handler []) =
      Some (Inl (Failed (StepLimitExceeded 4)), ?c, new_handler [])"
    by (subst run.simps) simp
  then have "run (handle example_externals) 1 (new_cpu nop_program) (new_handler []) =
      Some (Inl (Failed (StepLimitExceeded 4)), ?c, new_handler [])"
    by (subst run.simps) (simp add: nop_step s)
  from interrupted_runs_resume [OF wf_new_cpu _ this, of 5] show ?thesis
    by simp
qed

end
