(* ===== verification/Hints.thy ===== *)
theory Hints
  imports Handler
begin

text \<open>
  What the pairing instruction of \<^verbatim>\<open>precompiles/src/pairing.rs\<close> leaves in the hint stream, read back
  the way the guest reads it, and all its outcomes.
\<close>

section \<open>Reading the hints back\<close>

text \<open>What the code relies on of the field types: the canonical bytes of an element fit the width of
  the format, and reading them, with zeroes after them, gives the element.\<close>

definition faithful_bytes :: "'q tower \<Rightarrow> nat \<Rightarrow> bool" where
  "faithful_bytes T n \<longleftrightarrow> (\<forall>x. length (fq_bigint_le T x) \<le> n \<and>
     (\<forall>k. fq_mod_order T (fq_bigint_le T x @ replicate k 0) = x))"

text \<open>The guest's reading of an element of \<^verbatim>\<open>Fq12\<close>: twelve field elements, the six coefficients of the
  quadratic extension in turn from the first and the second half of the tower.\<close>

definition parse_fq12 :: "'q tower \<Rightarrow> nat \<Rightarrow> u8 list \<Rightarrow> 'q fq12" where
  "parse_fq12 T n bs =
     (let e = (\<lambda>k. fq_mod_order T (take n (drop (k * n) bs))) in
      Fq12 (Fq6 (Fq2 (e 0) (e 1)) (Fq2 (e 4) (e 5)) (Fq2 (e 8) (e 9)))
        (Fq6 (Fq2 (e 2) (e 3)) (Fq2 (e 6) (e 7)) (Fq2 (e 10) (e 11))))"

lemma drop_append_length: "length xs = n \<Longrightarrow> drop (n + k) (xs @ ys) = drop k ys"
  by simp

lemma parse_fq12_concat:
  assumes "\<And>x. length (b x) = n" "\<And>x. fq_mod_order T (b x) = x"
  shows "parse_fq12 T n (b x0 @ b x1 @ b x2 @ b x3 @ b x4 @ b x5 @ b x6 @ b x7 @ b x8 @ b x9 @ b x10 @ b x11 @ bs) =
    Fq12 (Fq6 (Fq2 x0 x1) (Fq2 x4 x5) (Fq2 x8 x9)) (Fq6 (Fq2 x2 x3) (Fq2 x6 x7) (Fq2 x10 x11))"
proof -
  have step: "drop (Suc k * n) (b x @ ys) = drop (k * n) ys" for k x ys
    using drop_append_length [OF assms(1), of "k * n" x ys] by simp
  have here: "fq_mod_order T (take n (drop (0 * n) (b x @ ys))) = x" for x ys
    by (simp add: assms)
  show ?thesis
    by (simp only: parse_fq12_def Let_def eval_nat_numeral BitM.simps One_nat_def step here)
qed

lemma bn_bytes_parse:
  assumes "faithful_bytes T 32"
  shows "parse_fq12 T 32 (bn_fq12_to_openvm_bytes T f @ bs) = f" "length (bn_fq12_to_openvm_bytes T f) = 384"
proof -
  have len: "length (bn_fq_to_le_bytes T x) = 32" for x
    by (simp add: bn_fq_to_le_bytes_def Let_def min_def)
  have "fq_mod_order T (bn_fq_to_le_bytes T x) = x" for x
    using assms by (simp add: bn_fq_to_le_bytes_def faithful_bytes_def Let_def min_def)
  note parse = parse_fq12_concat [where b = "bn_fq_to_le_bytes T" and n = 32 and T = T, OF len this]
  show "parse_fq12 T 32 (bn_fq12_to_openvm_bytes T f @ bs) = f"
    unfolding bn_fq12_to_openvm_bytes_def bn_fq2_to_le_bytes_def list.map concat.simps append_assoc append_Nil
      append_Nil2 parse by simp
  show "length (bn_fq12_to_openvm_bytes T f) = 384"
    by (simp add: bn_fq12_to_openvm_bytes_def bn_fq2_to_le_bytes_def len)
qed

lemma bls_bytes_parse:
  assumes "faithful_bytes T 48"
  shows "parse_fq12 T 48 (bls_fq12_to_openvm_bytes T f @ bs) = f" "length (bls_fq12_to_openvm_bytes T f) = 576"
proof -
  have len: "length (fq_to_le48 T x) = 48" for x
    by (simp add: fq_to_le48_def Let_def min_def)
  have "fq_mod_order T (fq_to_le48 T x) = x" for x
    using assms by (simp add: fq_to_le48_def faithful_bytes_def Let_def min_def)
  note parse = parse_fq12_concat [where b = "fq_to_le48 T" and n = 48 and T = T, OF len this]
  show "parse_fq12 T 48 (bls_fq12_to_openvm_bytes T f @ bs) = f"
    unfolding bls_fq12_to_openvm_bytes_def bls_fq2_to_le_def list.map concat.simps append_assoc append_Nil
      append_Nil2 parse by simp
  show "length (bls_fq12_to_openvm_bytes T f) = 576"
    by (simp add: bls_fq12_to_openvm_bytes_def bls_fq2_to_le_def len)
qed

section \<open>The instruction\<close>

text \<open>What the hint stream receives for a pair of elements, or the failure.\<close>

definition hint_pair :: "'q tower \<Rightarrow> nat \<Rightarrow> precompile_handler \<Rightarrow> ('q fq12 \<times> 'q fq12) res
    \<Rightarrow> unit res \<times> precompile_handler \<Rightarrow> bool" where
  "hint_pair T n h r out \<longleftrightarrow> (case r of
     Inl e \<Rightarrow> out = (Inl e, h)
   | Inr (x, u) \<Rightarrow> \<exists>bs. out = (Inr (), push_hint h bs) \<and> length bs = 24 * n \<and>
       parse_fq12 T n bs = x \<and> parse_fq12 T n (drop (12 * n) bs) = u)"

lemma push_hint_append: "push_hint (push_hint h bs) cs = push_hint h (bs @ cs)"
  by (simp add: push_hint_def)

lemma hint_pairI:
  assumes "\<And>f bs. parse_fq12 T n (enc f @ bs) = f" "\<And>f. length (enc f) = 12 * n"
  shows "hint_pair T n h (Inr (x, u)) (Inr (), push_hint (push_hint h (enc x)) (enc u))"
  unfolding hint_pair_def sum.case prod.case push_hint_append
  using assms(1) [of u "[]"] by (intro exI [of _ "enc x @ enc u"]) (simp add: assms)

lemma bn_hint_final_exp_pair:
  assumes "faithful_bytes B 32"
    and "read_u32 (cpu_mem c) (read_reg c (rs1 insn) + 4) = n" "read_u32 (cpu_mem c) (read_reg c (rs2 insn) + 4) = n"
  shows "hint_pair B 32 h
    (if n = 0 then Inr (fq12_one B, fq12_one B)
     else bn_final_exp_hint B (multi_miller_loop B
       (bn_g1_points B c (read_u32 (cpu_mem c) (read_reg c (rs1 insn))) n)
       (bn_g2_points B c (read_u32 (cpu_mem c) (read_reg c (rs2 insn))) n)))
    (bn_hint_final_exp B h c insn)"
proof -
  note pair = hint_pairI [where enc = "bn_fq12_to_openvm_bytes B" and n = 32,
      OF bn_bytes_parse(1) [OF assms(1)] bn_bytes_parse(2) [OF assms(1), THEN trans]]
  show ?thesis
    using pair unfolding bn_hint_final_exp_def Let_def rs1_def [symmetric] rs2_def [symmetric] assms(2,3)
    by (auto simp: hint_pair_def split: sum.split)
qed

lemma bls_hint_final_exp_pair:
  assumes "faithful_bytes L 48"
    and "read_u32 (cpu_mem c) (read_reg c (rs1 insn) + 4) = n" "read_u32 (cpu_mem c) (read_reg c (rs2 insn) + 4) = n"
  shows "hint_pair L 48 h
    (if n = 0 then Inr (fq12_one L, fq12_one L)
     else bls_final_exp_hint L (multi_miller_loop L
       (bls_g1_points L c (read_u32 (cpu_mem c) (read_reg c (rs1 insn))) n)
       (bls_g2_points L c (read_u32 (cpu_mem c) (read_reg c (rs2 insn))) n)))
    (bls_hint_final_exp L h c insn)"
proof -
  note pair = hint_pairI [where enc = "bls_fq12_to_openvm_bytes L" and n = 48,
      OF bls_bytes_parse(1) [OF assms(1)] bls_bytes_parse(2) [OF assms(1), THEN trans]]
  show ?thesis
    using pair unfolding bls_hint_final_exp_def Let_def rs1_def [symmetric] rs2_def [symmetric] assms(2,3)
      push_hint_append [symmetric]
    by (auto simp: hint_pair_def split: sum.split)
qed

lemma funct7_pairing:
  "funct7 insn mod PAIRING_MAX_KINDS = 0 \<and> unat (funct7 insn div PAIRING_MAX_KINDS) = k \<longleftrightarrow>
    unat (funct7 insn) = 16 * k"
proof -
  have "unat (funct7 insn mod PAIRING_MAX_KINDS) = unat (funct7 insn) mod 16"
    "unat (funct7 insn div PAIRING_MAX_KINDS) = unat (funct7 insn) div 16"
    by (simp_all add: PAIRING_MAX_KINDS_def unat_mod unat_div)
  then show ?thesis
    by (auto simp: word_unat_eq_iff [of _ 0])
qed

text \<open>C36. The pairing instruction, with the default curves. For operands of equal length, HintFinalExp
  of BN254 or of BLS12-381 appends to the hint stream 768 or 1152 bytes that the guest reads back as
  the residue witness of the Miller loop's value (as one twice for the empty product), and fails
  with what computing the witness fails with; different lengths and every other encoding are
  errors. A failure leaves the handler as it was.\<close>

theorem pairing_outcomes:
  assumes "pairings h = default_pairings" and "faithful_bytes B 32" "faithful_bytes L 48"
  shows "let p = read_reg c (rs1 insn); q = read_reg c (rs2 insn); n = read_u32 (cpu_mem c) (p + 4);
      p_ptr = read_u32 (cpu_mem c) p; q_ptr = read_u32 (cpu_mem c) q; out = handle_pairing B L h c insn
    in if unat (funct7 insn) \<notin> {0, 16} \<or> n \<noteq> read_u32 (cpu_mem c) (q + 4) then
         \<exists>msg. out = (Inl (Failed (CustomOp msg)), h)
       else if funct7 insn = 0 then
         hint_pair B 32 h (if n = 0 then Inr (fq12_one B, fq12_one B)
           else bn_final_exp_hint B (multi_miller_loop B (bn_g1_points B c p_ptr n) (bn_g2_points B c q_ptr n))) out
       else
         hint_pair L 48 h (if n = 0 then Inr (fq12_one L, fq12_one L)
           else bls_final_exp_hint L (multi_miller_loop L (bls_g1_points L c p_ptr n) (bls_g2_points L c q_ptr n))) out"
proof -
  let ?n = "read_u32 (cpu_mem c) (read_reg c (rs1 insn) + 4)" and ?k = "unat (funct7 insn div PAIRING_MAX_KINDS)"
  note fields = funct7_def [symmetric] rs1_def [symmetric] rs2_def [symmetric]
  note curves = funct7_pairing [of insn 0] funct7_pairing [of insn 1]
  have names: "?k < length (pairings h) \<longleftrightarrow> ?k = 0 \<or> ?k = 1" "pairings h ! 0 = ''bn254''"
    "pairings h ! 1 = ''bls12_381''"
    unfolding assms(1) default_pairings_def by auto
  consider (bn) "unat (funct7 insn) = 0" | (bls) "unat (funct7 insn) = 16" | (no) "unat (funct7 insn) \<notin> {0, 16}"
    by auto
  then show ?thesis
  proof cases
    case no
    with curves have "funct7 insn mod PAIRING_MAX_KINDS = 0 \<Longrightarrow> \<not> ?k < length (pairings h)"
      by (auto simp: names(1))
    with no show ?thesis
      by (cases "funct7 insn mod PAIRING_MAX_KINDS = 0") (simp_all add: handle_pairing_def Let_def fields)
  next
    case bn
    with curves(1) have "handle_pairing B L h c insn = bn_hint_final_exp B h c insn"
      by (simp add: handle_pairing_def Let_def fields assms(1) default_pairings_def)
    with bn bn_hint_final_exp_pair [OF assms(2), of c insn ?n h] show ?thesis
      by (auto simp: Let_def bn_hint_final_exp_def fields unat_eq_0)
  next
    case bls
    with curves(2) have "handle_pairing B L h c insn = bls_hint_final_exp L h c insn"
      by (simp add: handle_pairing_def Let_def fields assms(1) default_pairings_def)
    with bls bls_hint_final_exp_pair [OF assms(3), of c insn ?n h] show ?thesis
      by (auto simp: Let_def bls_hint_final_exp_def fields)
  qed
qed

text \<open>A tower over bytes, for the example.\<close>

definition byte_tower :: "u8 tower" where
  "byte_tower = (let z = Fq2 0 0; z6 = Fq6 z z z; one = Fq12 (Fq6 (Fq2 1 0) z z) z6 in
     \<lparr>fq_mod_order = (\<lambda>bs. if bs = [] then 0 else hd bs), fq_bigint_le = (\<lambda>x. [x]), fq2_zero = z, fq6_zero = z6,
      fq12_one = one, fq12_mul = (\<lambda>x y. x), fq12_pow = (\<lambda>x e. x), fq12_inverse = Some,
      multi_miller_loop = (\<lambda>_ _. one)\<rparr>)"

theorem pairing_outcomes_witness:
  "\<exists>bs. handle_pairing byte_tower byte_tower (new_handler []) (example_cpu [] []) (R_type 0 0 0 3 0 0x2b)
     = (Inr (), push_hint (new_handler []) bs) \<and> length bs = 768 \<and>
     parse_fq12 byte_tower 32 bs = fq12_one byte_tower \<and> parse_fq12 byte_tower 32 (drop 384 bs) = fq12_one byte_tower"
proof -
  let ?c = "example_cpu [] []" and ?insn = "R_type 0 0 0 3 0 0x2b"
  have f: "faithful_bytes byte_tower 32" "faithful_bytes byte_tower 48"
    by (simp_all add: faithful_bytes_def byte_tower_def Let_def)
  have t: "pairings (new_handler []) = default_pairings"
    by (simp add: new_handler_def)
  have i: "funct7 ?insn = 0" "rs1 ?insn = 0" "rs2 ?insn = 0"
    by code_simp+
  have r: "read_u32 (cpu_mem ?c) addr = 0" for addr
    by (simp add: read_u32_bytes keeps_wf wf_cpu_memory read_vec_def example_cpu_byte from_le_bytes_def map_replicate_const)
  show ?thesis
    using pairing_outcomes [OF t f, of ?c ?insn] by (simp add: i r hint_pair_def)
qed

end
