(* ===== verification/Liveness.thy ===== *)
theory Liveness
  imports Handler
begin

text \<open>
  When a run returns. A host computation ends unless it is one of the searches of the hint
  instructions; those end over the fields the tables are meant for.
\<close>

section \<open>Host computations that end\<close>

definition ends :: "'a res \<Rightarrow> bool" where
  "ends r \<longleftrightarrow> r \<noteq> Inl Diverged"

named_theorems ends_rules \<open>host computations that end\<close>

lemma ends_basic [ends_rules]:
  "ends (Inr v)" "ends (Inl (Failed e))" "ends (Inl (Panicked msg))"
  by (simp_all add: ends_def)

lemma ends_bind [ends_rules]: "ends q \<Longrightarrow> (\<And>v. ends (g v)) \<Longrightarrow> ends (bind_res q g)"
  by (cases q) (simp_all add: ends_def)

lemma ends_compute [ends_rules]: "ends q \<Longrightarrow> (\<And>v. ends (fst (k v c))) \<Longrightarrow> ends (fst (compute q c k))"
  by (cases q) (simp_all add: ends_def)

lemma ends_pair [ends_rules]: "ends r \<Longrightarrow> ends (fst (r, c))"
  by simp

lemma ends_if [ends_rules]:
  "ends r \<Longrightarrow> ends s \<Longrightarrow> ends (if b then r else s)"
  "ends (fst p) \<Longrightarrow> ends (fst q) \<Longrightarrow> ends (fst (if b then p else q))"
  by simp_all

lemma ends_option [ends_rules]:
  "ends r \<Longrightarrow> (\<And>y. ends (f y)) \<Longrightarrow> ends (case x of None \<Rightarrow> r | Some y \<Rightarrow> f y)"
  "ends (fst p) \<Longrightarrow> (\<And>y. ends (fst (q y))) \<Longrightarrow> ends (fst (case x of None \<Rightarrow> p | Some y \<Rightarrow> q y))"
  by (simp_all split: option.split)

lemma ends_arith [ends_rules]: "ends (sub_big a b)" "ends (rem_big a b)" "ends (mod_inv a b)"
  by (simp_all add: ends_def sub_big_def rem_big_def mod_inv_def split: prod.split)

lemma ends_fp2 [ends_rules]: "ends (complex_sub a b p)" "ends (complex_c0 a0 a1 b0 b1 p)" "ends (conj_coefficient b p)"
  unfolding complex_sub_def complex_c0_def conj_coefficient_def Let_def by (intro ends_rules)+

lemma ends_points [ends_rules]: "ends (modp_sub a b p)" "ends (ecc_mod_inv a p)" "ends (add_ne e v w)" "ends (double e v)"
proof -
  show sub: "ends (modp_sub a b p)" for a b p
    unfolding modp_sub_def Let_def by (intro ends_rules)
  show inv': "ends (ecc_mod_inv a p)" for a p
    unfolding ecc_mod_inv_eq by (intro ends_rules)
  show "ends (add_ne e v w)" "ends (double e v)"
    unfolding add_ne_def double_def Let_def by (intro ends_rules sub inv')+
qed

lemma do_mod_op_ends: "ends (fst (do_mod_op c insn e op))"
  unfolding do_mod_op_def Let_def by (intro ends_rules)

lemma do_complex_op_ends: "ends (fst (do_complex_op c insn e op))"
  unfolding do_complex_op_def Let_def by (intro ends_rules)

section \<open>The searches\<close>

lemma mod_sqrt_openvm_ends: "1 < p \<Longrightarrow> ends (mod_sqrt_openvm x p z)"
  using strip_twos_total [of "p - 1" 0]
  by (auto simp: mod_sqrt_openvm_def Let_def ends_def sub_big_def)

lemma sqrt_hint_ends: "1 < p \<Longrightarrow> ends (sqrt_hint x p z)"
  unfolding sqrt_hint_def by (intro ends_rules mod_sqrt_openvm_ends)

lemma non_residue_search_ends:
  assumes "prime_num p" "p mod 2 = 1"
  shows "\<exists>z. search_non_residue ((p - 1) div 2) (p - 1) p 2 = Some z"
proof -
  obtain w where "2 \<le> w" "w < p" "w ^ ((p - 1) div 2) mod p = p - 1"
    using nonresidue_exists [OF assms] by blast
  then show ?thesis
    using search_non_residue_least [of 2 w "(p - 1) div 2" p "p - 1"] prime_num_gt_1 [OF assms(1)]
    by (auto simp: modpow_def)
qed

text \<open>Modulo 3 modulo 4 both searches of the curve instructions end at once, whether or not the modulus is
  prime: \<open>-1\<close> to an odd power is \<open>-1\<close>, and the order of two in the group is one.\<close>

lemma minus_one_odd_power:
  assumes "1 < (p :: nat)"
  shows "(p - 1) ^ Suc (2 * k) mod p = p - 1"
proof (induction k)
  case (Suc k)
  have "(p - 1) * (p - 1) mod p = 1"
    using minus_one_squared [OF assms] by simp
  then have "(p - 1) ^ Suc (2 * k) * ((p - 1) * (p - 1)) mod p = (p - 1) ^ Suc (2 * k) mod p"
    by (metis mod_mult_right_eq mult.right_neutral)
  moreover have "(p - 1) ^ Suc (2 * Suc k) = (p - 1) ^ Suc (2 * k) * ((p - 1) * (p - 1))"
    by (simp only: power_Suc mult_Suc_right add_Suc_right add_Suc add_0 numeral_2_eq_2 mult.assoc mult.commute mult.left_commute)
  ultimately show ?case
    using Suc.IH by (simp only:)
qed (use assms in simp)

lemma non_residue_search_3_mod_4:
  assumes "p mod 4 = (3 :: nat)"
  shows "\<exists>z. search_non_residue ((p - 1) div 2) (p - 1) p 2 = Some z"
proof -
  define k where "k = p div 4"
  have p: "p = 4 * k + 3"
    using assms unfolding k_def by presburger
  then have "(p - 1) div 2 = Suc (2 * k)"
    by simp
  with minus_one_odd_power [of p k] p have "modpow (p - 1) ((p - 1) div 2) p = (p - 1) mod p"
    by (simp add: modpow_def)
  with search_non_residue_least [of 2 "p - 1" "(p - 1) div 2" p "p - 1"] p show ?thesis
    by auto
qed

lemma tonelli_shanks_3_mod_4:
  assumes "p mod 4 = (3 :: nat)"
  shows "ends (tonelli_shanks n p)"
proof -
  define k where "k = p div 4"
  have p: "p = 4 * k + 3"
    using assms unfolding k_def by presburger
  then have "strip_twos (p - 1) 0 = Some (2 * k + 1, 1)" "(p - 1) div 2 = 2 * k + 1"
    by (simp_all add: strip_twos.simps)
  moreover obtain z where "search_non_residue ((p - 1) div 2) (p - 1) p 2 = Some z"
    using non_residue_search_3_mod_4 [OF assms] by blast
  ultimately show ?thesis
    using p by (simp add: tonelli_shanks_def Let_def ends_def sub_big_def shanks_loop.simps)
qed

text \<open>A curve whose searches end.\<close>

definition searchable :: "curve_entry \<Rightarrow> bool" where
  "searchable e \<longleftrightarrow> curve_ok e \<and>
     (ce_modulus e mod 4 = 3 \<or> prime_num (ce_modulus e) \<and> \<not> 2 ^ 33 dvd ce_modulus e - 1)"

lemma default_curves_searchable: "list_all searchable default_curves"
proof -
  have "list_all (\<lambda>e. ce_modulus e mod 4 = 3) default_curves"
    by (simp add: default_curves_def)
  with default_curves_ok show ?thesis
    by (simp add: list_all_iff searchable_def)
qed

lemma decompress_ends:
  assumes "searchable e"
  shows "ends (decompress e x (w AND 1) pc)"
proof (cases "ce_modulus e mod 4 = 3")
  case True
  then show ?thesis
    unfolding decompress_def Let_def by (intro ends_rules tonelli_shanks_3_mod_4)
next
  case False
  with assms have e: "curve_ok e" "prime_num (ce_modulus e)" "\<not> 2 ^ 33 dvd ce_modulus e - 1"
    by (simp_all add: searchable_def)
  have "w AND 1 = 0 \<or> w AND 1 = (1 :: u32)"
    by (metis and_one_eq mod2_eq_if)
  from decompress_correct [OF e(2) curve_ok_modulus(3) [OF e(1)] e(3) this, of x pc] show ?thesis
    by (auto simp: ends_def split: if_splits)
qed

lemma non_qr_ends:
  assumes "searchable e"
  shows "\<exists>z. search_non_residue ((ce_modulus e - 1) div 2) (ce_modulus e - 1) (ce_modulus e) 2 = Some z"
  using assms non_residue_search_3_mod_4 non_residue_search_ends curve_ok_modulus(3)
  unfolding searchable_def by blast

lemma do_sw_op_ends:
  assumes "searchable e"
  shows "ends (fst (do_sw_op c insn e op))"
proof (cases "op = SW_HINT_NON_QR")
  case True
  moreover have "1 < ce_modulus e"
    using assms curve_ok_modulus(1) by (simp add: searchable_def)
  moreover obtain z where "search_non_residue ((ce_modulus e - 1) div 2) (ce_modulus e - 1) (ce_modulus e) 2 = Some z"
    using non_qr_ends [OF assms] by blast
  ultimately show ?thesis
    by (simp add: do_sw_op_def Let_def sw_codes sub_big_def ends_def)
next
  case False
  then show ?thesis
    unfolding do_sw_op_def Let_def by (simp only: if_False) (intro ends_rules decompress_ends assms)
qed

lemma bls_final_exp_ends: "ends (bls_final_exp_hint T f)"
proof -
  have "ends (inv_pow_bu T x e)" for x e
    unfolding inv_pow_bu_def by (intro ends_rules)
  then show ?thesis
    unfolding bls_final_exp_hint_def Let_def by (intro ends_rules)
qed

lemma bls_hint_final_exp_ends: "ends (fst (bls_hint_final_exp T h c insn))"
  using bls_final_exp_ends [of T]
  by (auto simp: bls_hint_final_exp_def Let_def ends_def split: sum.split)

section \<open>The instructions whose search may not end\<close>

text \<open>Either a modular hint modulo a number that is 1 modulo 8, when the random generator never produces a
  non-residue, or the final exponentiation of BN254, when one of its two loops goes on for ever.\<close>

definition endless_search :: "('b, 'l) externals \<Rightarrow> precompile_handler \<Rightarrow> cpu \<Rightarrow> u32 \<Rightarrow> bool" where
  "endless_search X h c insn \<longleftrightarrow> opcode insn = OPCODE_CUSTOM_1 \<and>
     (let f7 = funct7 insn;
          m = unat (f7 div MODULAR_MAX_KINDS);
          b = unat (f7 div PAIRING_MAX_KINDS)
      in funct3 insn = F3_MODULAR \<and> m < length (moduli h) \<and>
           (f7 mod MODULAR_MAX_KINDS = MOD_HINT_NON_QR \<or> f7 mod MODULAR_MAX_KINDS = MOD_HINT_SQRT) \<and>
           me_modulus (moduli h ! m) mod 8 = 1 \<and> sample_non_qr (ext_fill X) (me_modulus (moduli h ! m)) 0 = None
         \<or> funct3 insn = F3_PAIRING \<and> b < length (pairings h) \<and> pairings h ! b = ''bn254'' \<and>
           f7 mod PAIRING_MAX_KINDS = 0 \<and> fst (bn_hint_final_exp (ext_bn254 X) h c insn) = Inl Diverged)"

lemma find_non_qr_ends:
  assumes "entry_ok e"
  shows "ends (find_non_qr_openvm fill (me_modulus e)) \<longleftrightarrow>
    \<not> (me_modulus e mod 8 = 1 \<and> sample_non_qr fill (me_modulus e) 0 = None)"
proof -
  let ?p = "me_modulus e"
  have p: "3 < ?p" "?p mod 2 = 1"
    using assms by (simp_all add: entry_ok_def modulus_ok_def)
  have "?p mod 8 = 1 \<longleftrightarrow> ?p mod 4 \<noteq> 3 \<and> ?p mod 8 \<noteq> 5"
    using p(2) by presburger
  then show ?thesis
    using p(1) by (auto simp: find_non_qr_openvm_def ends_def sub_big_def split: option.split)
qed

lemma hint_sqrt_ends:
  assumes "1 < p"
  shows "ends (bind_res q (\<lambda>z. sqrt_hint x p z)) \<longleftrightarrow> ends q"
  using sqrt_hint_ends [OF assms] by (cases q) (auto simp: ends_def)

text \<open>The ends of the ways a handler returns the result of a host computation.\<close>

lemma ends_returned [simp]:
  "ends (fst (case q of Inl e \<Rightarrow> (Inl e, f e) | Inr v \<Rightarrow> (Inr (g v), k v))) \<longleftrightarrow> ends q"
  "ends (fst (case q' of Inl e \<Rightarrow> (Inl e, f' e) | Inr v \<Rightarrow> (case v of (a, b) \<Rightarrow> (Inr (), k' a b)))) \<longleftrightarrow> ends q'"
  "ends (fst (case r of (out, d) \<Rightarrow> (out, d, x))) \<longleftrightarrow> ends (fst r)"
  "ends (fst (case m of (Inl e, c, h) \<Rightarrow> (Inl e, c, h) | (Inr _, c, h) \<Rightarrow> (Inr v, c, h))) \<longleftrightarrow> ends (fst m)"
  "ends (fst (case s of (Inl e, h) \<Rightarrow> (Inl e, c, h) | (Inr _, h) \<Rightarrow> (Inr w, c, h))) \<longleftrightarrow> ends (fst s)"
  by (auto simp: ends_def split: sum.split prod.split)

lemma handle_modular_ends:
  assumes "list_all entry_ok (moduli h)"
  shows "ends (fst (handle_modular fill h c insn)) \<longleftrightarrow>
    \<not> (unat (funct7 insn div MODULAR_MAX_KINDS) < length (moduli h) \<and>
       (funct7 insn mod MODULAR_MAX_KINDS = MOD_HINT_NON_QR \<or> funct7 insn mod MODULAR_MAX_KINDS = MOD_HINT_SQRT) \<and>
       me_modulus (moduli h ! unat (funct7 insn div MODULAR_MAX_KINDS)) mod 8 = 1 \<and>
       sample_non_qr fill (me_modulus (moduli h ! unat (funct7 insn div MODULAR_MAX_KINDS))) 0 = None)"
proof -
  define i where "i = unat (funct7 insn div MODULAR_MAX_KINDS)"
  define op where "op = funct7 insn mod MODULAR_MAX_KINDS"
  define e where "e = moduli h ! i"
  show ?thesis
  proof (cases "i < length (moduli h)")
    case True
    then have e: "entry_ok e"
      using assms by (simp add: e_def entry_ok_nth)
    then have p: "1 < me_modulus e"
      by (simp add: entry_ok_def modulus_ok_def)
    note ends = find_non_qr_ends [OF e, of fill] hint_sqrt_ends [OF p] do_mod_op_ends
    show ?thesis
      using True unfolding handle_modular_def funct7_def [symmetric] Let_def
        i_def [symmetric] op_def [symmetric] e_def [symmetric]
      by (simp add: ends)
  next
    case False
    then show ?thesis
      unfolding handle_modular_def funct7_def [symmetric] Let_def i_def [symmetric]
      by (simp add: ends_def)
  qed
qed

lemma handle_pairing_ends:
  "ends (fst (handle_pairing B L h c insn)) \<longleftrightarrow>
    \<not> (unat (funct7 insn div PAIRING_MAX_KINDS) < length (pairings h) \<and>
       pairings h ! unat (funct7 insn div PAIRING_MAX_KINDS) = ''bn254'' \<and>
       funct7 insn mod PAIRING_MAX_KINDS = 0 \<and> fst (bn_hint_final_exp B h c insn) = Inl Diverged)"
  unfolding handle_pairing_def funct7_def [symmetric] Let_def
  by (auto simp: bls_hint_final_exp_ends) (auto simp: ends_def)

lemma continue_with_ends [simp]: "ends (fst (continue_with h r)) \<longleftrightarrow> ends (fst r)"
  by (cases r) (auto simp: continue_with_def ends_def split: sum.split)

lemma handle_complex_ends: "ends (fst (handle_complex h c insn))"
  by (simp add: handle_complex_def Let_def do_complex_op_ends ends_basic)

lemma handle_sw_ends: "list_all searchable (curves h) \<Longrightarrow> ends (fst (handle_sw h c insn))"
  by (auto simp: handle_sw_def Let_def do_sw_op_ends ends_basic list_all_length)

lemma plain_instructions_end:
  "ends (fst (do_keccakf c insn))" "ends (fst (do_xorin c insn))" "ends (fst (do_sha256_compress f c insn))"
  "ends (fst (handle_int256 c insn))" "ends (fst (handle_beq256 c insn))" "ends (fst (store_hint h c a n))"
  by (simp_all add: do_keccakf_def do_xorin_def do_sha256_compress_def handle_int256_def handle_beq256_def
      store_hint_def Let_def ends_def split: option.split prod.split)

lemma hint_input_ends:
  "ends (fst (case q of Inl e \<Rightarrow> (Inl (Failed (f e)), c, h) | Inr i \<Rightarrow> (Inr Continue, c, g i)))"
  by (simp add: ends_def split: sum.split)

lemma custom0_ends: "ends (fst (handle_custom0 X insn f3 c h))"
  unfolding handle_custom0_def Let_def
  by (intro ends_rules plain_instructions_end hint_input_ends continue_with_ends [THEN iffD2])

lemma custom1_ends:
  assumes "list_all entry_ok (moduli h)" "list_all searchable (curves h)" "opcode insn = OPCODE_CUSTOM_1"
  shows "ends (fst (handle_custom1 X insn (funct3 insn) c h)) \<longleftrightarrow> \<not> endless_search X h c insn"
proof -
  consider "funct3 insn = F3_MODULAR" | "funct3 insn = F3_COMPLEX" | "funct3 insn = F3_SW"
    | "funct3 insn = F3_PAIRING" | "funct3 insn \<notin> {F3_MODULAR, F3_COMPLEX, F3_SW, F3_PAIRING}"
    by blast
  then show ?thesis
  proof cases
    case 1
    then show ?thesis
      using handle_modular_ends [OF assms(1), of "ext_fill X" c insn] assms(3)
      by (simp add: handle_custom1_def endless_search_def Let_def dispatch_defs)
  next
    case 4
    then show ?thesis
      using handle_pairing_ends [of "ext_bn254 X" "ext_bls12_381 X" h c insn] assms(3)
      by (simp add: handle_custom1_def endless_search_def Let_def dispatch_defs)
  qed (simp_all add: handle_custom1_def endless_search_def Let_def dispatch_defs ends_basic
      handle_complex_ends handle_sw_ends assms)
qed

lemma handle_ends:
  assumes "list_all entry_ok (moduli h)" "list_all searchable (curves h)"
  shows "ends (fst (handle X insn c h)) \<longleftrightarrow> \<not> endless_search X h c insn"
proof -
  have advance: "ends (fst (case r of (Inl e, c, h) \<Rightarrow> (Inl e, c, h) | (Inr Continue, c, h) \<Rightarrow> (Inr Continue, f c, h)
      | (Inr (Terminated code), c, h) \<Rightarrow> (Inr (Terminated code), c, h))) \<longleftrightarrow> ends (fst r)"
    for r :: "step_outcome res \<times> cpu \<times> precompile_handler" and f
    by (auto simp: ends_def split: sum.splits prod.splits step_outcome.splits)
  show ?thesis
  proof (cases "opcode insn = OPCODE_CUSTOM_1")
    case True
    then show ?thesis
      using custom1_ends [OF assms True]
      by (simp only: handle_def Let_def advance) (simp add: dispatch_defs)
  next
    case False
    then have "\<not> endless_search X h c insn"
      by (simp add: endless_search_def)
    with False show ?thesis
      unfolding handle_def Let_def advance by (simp add: custom0_ends ends_basic)
  qed
qed

section \<open>When a run returns\<close>

lemma run_reaches:
  "reaches handler limit c h c1 h1 \<Longrightarrow> run handler limit c h = run handler limit c1 h1"
proof (induction rule: reaches.induct)
  case (more c h c1 h1 c2 h2)
  then have "\<not> limit \<le> cpu_steps c1"
    by simp
  with more show ?case
    by (subst (asm) (2) run.simps) simp
qed simp

text \<open>C26. Every run returns, with an error, a panic, the step limit or an exit code, unless it comes to
  an instruction whose search over the host's numbers never ends; and the two sets of runs exclude each
  other. A run that returns has executed the steps that lead to its outcome, within the limit, and leaves a
  well-formed processor and the tables as they were. The tables are any whose moduli are odd and above
  three and whose curves have a modulus that is 3 modulo 4, or a prime with fewer than 33 factors of two
  below it, as the shipped tables are.\<close>

theorem machine_runs_return:
  assumes "wf_cpu c" "cpu_steps c \<le> max_steps" "list_all entry_ok (moduli h)" "list_all searchable (curves h)"
  shows "case run (handle X) max_steps c h of
      None \<Rightarrow> \<exists>c1 h1. reaches (handle X) max_steps c h c1 h1 \<and> cpu_steps c1 < max_steps \<and>
        endless_search X h1 c1 (read_u32 (cpu_mem c1) (cpu_pc c1))
    | Some (r, c', h') \<Rightarrow> r \<noteq> Inl Diverged \<and> run_ends (handle X) max_steps c h (r, c', h') \<and>
        wf_cpu c' \<and> cpu_steps c' \<le> max_steps \<and> same_tables h h' \<and>
        \<not> (\<exists>c1 h1. reaches (handle X) max_steps c h c1 h1 \<and> cpu_steps c1 < max_steps \<and>
          endless_search X h1 c1 (read_u32 (cpu_mem c1) (cpu_pc c1)))"
proof -
  have tables: "same_tables h h"
    by simp
  note machine = machine.run_outcome [OF assms(1) tables, of X max_steps]
    machine.reaches_keeps [OF _ assms(1) tables assms(2), of X]
    machine.run_ends_keeps [OF _ assms(1) tables assms(2), of X]
  have endless: "fst (step (handle X) c1 h1) = Inl Diverged \<longleftrightarrow>
      endless_search X h1 c1 (read_u32 (cpu_mem c1) (cpu_pc c1))"
    if "reaches (handle X) max_steps c h c1 h1" for c1 h1
  proof -
    let ?insn = "read_u32 (cpu_mem c1) (cpu_pc c1)"
    have "wf_cpu c1" "same_tables h h1"
      using machine(2) [OF that] by simp_all
    moreover from this(2) assms(3,4) have "ends (fst (handle X ?insn c1 h1)) \<longleftrightarrow> \<not> endless_search X h1 c1 ?insn"
      by (simp add: handle_ends same_tables_def)
    ultimately show ?thesis
      using step_custom [of c1 "handle X" h1] step_plain [of c1 h1 "handle X"]
      by (cases "custom_opcode ?insn") (auto simp: ends_def plain_step_ok_def endless_search_def custom_opcode_def)
  qed
  have stuck: "run (handle X) max_steps c h = None"
    if "reaches (handle X) max_steps c h c1 h1" "cpu_steps c1 < max_steps"
      "endless_search X h1 c1 (read_u32 (cpu_mem c1) (cpu_pc c1))" for c1 h1
    using run_reaches [OF that(1)] endless [OF that(1)] that(2,3)
    by (subst (asm) (2) run.simps) (auto simp: linorder_not_le [THEN iffD2] split: prod.splits)
  obtain r where r: "run_ends (handle X) max_steps c h r"
    "run (handle X) max_steps c h = (if fst r = Inl Diverged then None else Some r)"
    using machine(1) by blast
  show ?thesis
  proof (cases "fst r = Inl Diverged")
    case True
    with r(1) obtain c1 h1 where "reaches (handle X) max_steps c h c1 h1" "cpu_steps c1 < max_steps"
      "fst (step (handle X) c1 h1) = Inl Diverged"
      unfolding run_ends_def by (auto split: if_splits)
    with True r(2) endless show ?thesis
      by auto
  next
    case False
    with r machine(3) stuck show ?thesis
      by (cases r) auto
  qed
qed

text \<open>The shipped machine on a memory of zeroes stops at its first instruction.\<close>

theorem machine_runs_return_witness:
  "\<exists>c' h'. run (handle example_externals) 5 (example_cpu [] []) (new_handler []) =
      Some (Inl (Failed (IllegalInstruction 0 0)), c', h') \<and> wf_cpu c' \<and> cpu_steps c' \<le> 5"
proof -
  let ?c = "example_cpu [] []" and ?h = "new_handler []"
  have r: "read_u32 (cpu_mem ?c) 0 = 0" "cpu_pc ?c = 0"
    by code_simp+
  have "step (handle example_externals) ?c ?h = (Inl (Failed (IllegalInstruction 0 0)), ?c, ?h)"
    by (simp add: step_def Let_def r opcode_def dispatch_defs)
  then have run: "run (handle example_externals) 5 ?c ?h = Some (Inl (Failed (IllegalInstruction 0 0)), ?c, ?h)"
    by (simp add: run.simps)
  have "cpu_steps ?c \<le> 5" "list_all entry_ok (moduli ?h)" "list_all searchable (curves ?h)"
    using default_moduli_ok default_curves_searchable by (simp_all add: new_handler_def)
  from machine_runs_return [OF wf_example_cpu this, of example_externals, unfolded run] run show ?thesis
    by simp
qed

end
