(* ===== verification/Residue.thy ===== *)
theory Residue
  imports Tower
begin

text \<open>
  The multiplicative group of a field tower. Its elements are the powers of a generator, and what
  the hints compute with them is arithmetic on exponents modulo the order of the group.
\<close>

text \<open>The nonzero elements of a finite field form a cyclic group; \<^verbatim>\<open>*\<close>, \<^verbatim>\<open>pow\<close> and \<^verbatim>\<open>inverse\<close> are its
  operations.\<close>

definition cyclic_tower :: "'q tower \<Rightarrow> 'q fq12 \<Rightarrow> nat \<Rightarrow> bool" where
  "cyclic_tower T g n \<longleftrightarrow> 0 < n \<and> fq12_pow T g 0 = fq12_one T \<and>
     (\<forall>a b. fq12_mul T (fq12_pow T g a) (fq12_pow T g b) = fq12_pow T g (a + b)) \<and>
     (\<forall>a e. fq12_pow T (fq12_pow T g a) e = fq12_pow T g (a * e)) \<and>
     (\<forall>a b. fq12_pow T g a = fq12_pow T g b \<longleftrightarrow> a mod n = b mod n) \<and>
     (\<forall>a. \<exists>b. fq12_inverse T (fq12_pow T g a) = Some (fq12_pow T g b) \<and> (a + b) mod n = 0)"

lemma cyclic_tower_rules:
  assumes cyc: "cyclic_tower T g n"
  shows "0 < n"
    and "fq12_one T = fq12_pow T g 0"
    and "fq12_mul T (fq12_pow T g a) (fq12_pow T g b) = fq12_pow T g (a + b)"
    and "fq12_pow T (fq12_pow T g a) e = fq12_pow T g (a * e)"
    and "fq12_pow T g a = fq12_pow T g b \<longleftrightarrow> a mod n = b mod n"
    and "fq12_pow T g a = fq12_pow T g 0 \<longleftrightarrow> n dvd a"
    and "\<exists>b. fq12_inverse T (fq12_pow T g a) = Some (fq12_pow T g b) \<and> n dvd a + b"
proof -
  note c = cyc [unfolded cyclic_tower_def]
  show "0 < n"
    using c by blast
  show "fq12_one T = fq12_pow T g 0"
    using c by metis
  show "fq12_mul T (fq12_pow T g a) (fq12_pow T g b) = fq12_pow T g (a + b)"
    using c by blast
  show "fq12_pow T (fq12_pow T g a) e = fq12_pow T g (a * e)"
    using c by blast
  have eq: "fq12_pow T g a = fq12_pow T g b \<longleftrightarrow> a mod n = b mod n" for a b
    using c by blast
  then show "fq12_pow T g a = fq12_pow T g b \<longleftrightarrow> a mod n = b mod n" .
  show "fq12_pow T g a = fq12_pow T g 0 \<longleftrightarrow> n dvd a"
    by (simp add: eq dvd_eq_mod_eq_0)
  show "\<exists>b. fq12_inverse T (fq12_pow T g a) = Some (fq12_pow T g b) \<and> n dvd a + b"
    unfolding dvd_eq_mod_eq_0 using c by blast
qed

text \<open>Exponents that agree modulo the order, from a multiple of it.\<close>

lemma mod_eq_add: "n dvd a + v \<Longrightarrow> n dvd b + v \<Longrightarrow> a mod n = b mod (n :: nat)"
proof -
  assume "n dvd a + v" "n dvd b + v"
  then have "int n dvd int (a + v) - int (b + v)"
    by (simp add: int_dvd_int_iff dvd_diff del: of_nat_add)
  then have "int n dvd int a - int b"
    by simp
  then show ?thesis
    by (rule mod_eqI_dvd)
qed

lemma mult_inverse_pair:
  assumes "r_inv * r = 1 + k * (j :: nat)" "m_inv * m = 1 + k * i" "r dvd a" "n = k * r"
  shows "a * r_inv * m_inv * (r * m) mod n = a mod n"
proof -
  obtain d where d: "a = r * d"
    using assms(3) ..
  have "a * r_inv * m_inv * (r * m) = a * ((r_inv * r) * (m_inv * m))"
    by (simp only: ac_simps)
  also have "\<dots> = a + n * (d * (j + i + k * i * j))"
    unfolding assms(1,2,4) d by (simp add: algebra_simps)
  finally show ?thesis
    by simp
qed

section \<open>Limbs\<close>

abbreviation limb :: nat where
  "limb \<equiv> 115792089237316195423570985008687907853269984665640564039457584007913129639936"

lemma limb_times: "(a + limb * c) * x = a * x + limb * (c * x)"
  by (simp only: distrib_right mult.assoc)

lemma times_limb:
  fixes a x y :: nat
  shows "a * (x + limb * y) = a * x + limb * (a * y)"
  by (simp only: distrib_left mult.left_commute)

section \<open>Thirds and ninths\<close>

lemma three_dvd_mult: "3 dvd a * b \<longleftrightarrow> 3 dvd a \<or> 3 dvd (b :: nat)"
proof -
  have "x mod 3 = 0 \<or> x mod 3 = 1 \<or> x mod 3 = 2" for x :: nat
    by presburger
  from this [of a] this [of b] have "a mod 3 * (b mod 3) mod 3 = 0 \<longleftrightarrow> a mod 3 = 0 \<or> b mod 3 = 0"
    by (elim disjE) simp_all
  then show ?thesis
    by (simp only: dvd_eq_mod_eq_0 mod_mult_eq)
qed

lemma three_shifts:
  fixes x :: nat
  assumes "\<not> 3 dvd x" "\<not> 3 dvd a" "\<not> 3 dvd a + x"
  shows "3 dvd a + 2 * x"
  using assms by presburger

lemma nine_table: "list_all (\<lambda>x. list_all (\<lambda>y. y mod 3 = 0 \<or> list_ex (\<lambda>k. (x + k * y) mod 9 = 0) [0..<9]) [0..<9]) [0..<9::nat]"
  by code_simp

lemma nine_mod: "(b mod 9 + k * (d mod 9)) mod 9 = (b + k * d) mod (9 :: nat)"
  by (subst mod_add_eq [symmetric]) (simp only: mod_mod_trivial mod_mult_right_eq mod_add_eq)

lemma shift_to_nine:
  assumes "\<not> 3 dvd (d :: nat)"
  shows "\<exists>k \<le> 8. 9 dvd b + k * d"
proof -
  have r: "d mod 9 \<in> set [0..<9]" "b mod 9 \<in> set [0..<9]"
    unfolding set_upt atLeastLessThan_iff by simp_all
  have "d mod 9 mod 3 \<noteq> 0"
    using assms by (simp add: mod_mod_cancel dvd_eq_mod_eq_0)
  with bspec [OF bspec [OF nine_table [unfolded list_all_iff] r(2)] r(1)]
  have "list_ex (\<lambda>k. (b mod 9 + k * (d mod 9)) mod 9 = 0) [0..<9]"
    by (rule disjE [OF _ notE])
  then obtain k where k: "k \<in> set [0..<9]" "(b mod 9 + k * (d mod 9)) mod 9 = 0"
    unfolding list_ex_iff by (rule bexE)
  then have "k < 9" "9 dvd b + k * d"
    by (simp_all only: set_upt atLeastLessThan_iff nine_mod dvd_eq_mod_eq_0 simp_thms)
  moreover from this(1) have "k \<le> 8"
    by linarith
  ultimately show ?thesis
    by blast
qed

section \<open>An example\<close>

text \<open>The exponents themselves, as such a tower: \<open>e\<close> stands for the \<open>e\<close>-th power of the generator.\<close>

definition power_element :: "nat \<Rightarrow> nat fq12" where
  "power_element e = (let z = Fq2 0 0; z6 = Fq6 z z z in Fq12 (Fq6 z (Fq2 e e) z) z6)"

definition power_exponent :: "nat fq12 \<Rightarrow> nat" where
  "power_exponent x = fq2_c0 (fq6_c1 (fq12_c0 x))"

definition exponent_tower :: "nat \<Rightarrow> nat \<Rightarrow> nat tower" where
  "exponent_tower n w = (let z = Fq2 0 0 in
     \<lparr>fq_mod_order = (\<lambda>_. w), fq_bigint_le = (\<lambda>_. []), fq2_zero = z, fq6_zero = Fq6 z z z,
      fq12_one = power_element 0,
      fq12_mul = (\<lambda>x y. power_element ((power_exponent x + power_exponent y) mod n)),
      fq12_pow = (\<lambda>x e. power_element ((power_exponent x * e) mod n)),
      fq12_inverse = (\<lambda>x. Some (power_element ((n - power_exponent x mod n) mod n))),
      multi_miller_loop = (\<lambda>_ _. power_element 0)\<rparr>)"

lemma power_exponent_element [simp]: "power_exponent (power_element e) = e"
  by (simp add: power_exponent_def power_element_def Let_def)

lemma power_element_eq: "power_element a = power_element b \<longleftrightarrow> a = b"
  by (metis power_exponent_element)

lemma exponent_tower_pow:
  "1 < n \<Longrightarrow> fq12_pow (exponent_tower n w) (power_element 1) a = power_element (a mod n)"
  "fq12_pow (exponent_tower n w) (power_element a) e = power_element (a * e mod n)"
  "fq12_one (exponent_tower n w) = power_element 0"
  by (simp_all add: exponent_tower_def Let_def)

lemma exponent_tower_cyclic:
  assumes "1 < n"
  shows "cyclic_tower (exponent_tower n w) (power_element 1) n"
proof -
  let ?T = "exponent_tower n w"
  note pow = exponent_tower_pow(1) [OF assms, of w]
  have "fq12_mul ?T (power_element x) (power_element y) = power_element ((x + y) mod n)" for x y
    by (simp add: exponent_tower_def Let_def)
  moreover have "fq12_inverse ?T (power_element x) = Some (power_element ((n - x mod n) mod n))" for x
    by (simp add: exponent_tower_def Let_def)
  moreover have "(a + (n - a mod n) mod n) mod n = 0" for a
  proof -
    have "(a + (n - a mod n) mod n) mod n = (a mod n + (n - a mod n)) mod n"
      by (simp add: mod_simps)
    also have "a mod n + (n - a mod n) = n"
      using assms by (simp add: less_imp_le)
    finally show ?thesis
      by simp
  qed
  ultimately show ?thesis
    unfolding cyclic_tower_def pow exponent_tower_pow(2,3) power_element_eq using assms
    by (auto simp: mod_simps power_element_eq intro!: exI [of _ "(n - _ mod n) mod n"])
qed

end
