(* ===== verification/Bn254_Numbers.thy ===== *)
theory Bn254_Numbers
  imports Bn254 Config Residue
begin

text \<open>
  The arithmetic of the constants of \<^verbatim>\<open>bn254_hint.rs\<close>: they are what the comments there say of them,
  except that \<open>m_inv\<close> inverts \<open>m\<close> modulo \<open>(p ^ 12 - 1) / r\<close> only. Products of large numbers are
  checked limb by limb, in base \<open>2 ^ 256\<close>.
\<close>

section \<open>The constants\<close>

definition bn_p :: nat where
  "bn_p = 21888242871839275222246405745257275088696311157297823662689037894645226208583"

definition bn_r :: nat where
  "bn_r = 21888242871839275222246405745257275088548364400416034343698204186575808495617"

text \<open>The exponent \<open>6x + 2 + p - p\<^sup>2 + p\<^sup>3\<close> of the residue witness.\<close>

definition bn_lambda :: nat where
  "bn_lambda = 6 * 4965661367192848881 + 2 + bn_p + bn_p ^ 3 - bn_p ^ 2"

text \<open>The part of \<open>p ^ 12 - 1\<close> prime to 3 and to \<open>r\<close>, and \<open>\<lambda> / (3 r)\<close>.\<close>

definition bn_cofactor :: nat where
  "bn_cofactor = 20462379022712003567133967658636042485088226065294727932921582752377663364441020044962018620797801104333689205505728901615840783475164694363366939750253390778007468136212079257260340739570836992773421914899000706801973038798752466087613325055297314646601421255662071765183092773082242746724093552826011234509165315394248588024191745539937155225774107747837956215798766231177941040070103175035849322744359878130596009676965627872598930053484149971449020928054953709683704605679492006195646398378431938352919019227400307080390336004643749289471447094254133435219887586270874375456497273471671191675168190939864682818293714348225537682480488108058137532768447475083536021368054499859101952858824497616047082915190064299862955487735293538538864530769454810259510531659311935174910140131914265911808017779173889093163931939349298972060678694240"

definition bn_m :: nat where
  "bn_m = 159698392005540947480662681738892913600830203692610128578278487256136045360236842637946308807518740600578730809901535764110456756721301476208843247890119"

lemma bn_moduli: "bn_p = me_modulus (default_moduli ! 0)" "bn_r = me_modulus (default_moduli ! 1)"
  by (simp_all add: bn_p_def bn_r_def default_moduli_def)

lemma bn_cofactor_limbs: "bn_cofactor = 30925910133872972919340747195616210899614543993115053039893337179761782891872 + 115792089237316195423570985008687907853269984665640564039457584007913129639936 * (67582069781387094793626316574243437429612901622946538179974401571414109164457 + 115792089237316195423570985008687907853269984665640564039457584007913129639936 * (106134452964921507334181853073727813204918804114437238526888959599423657467388 + 115792089237316195423570985008687907853269984665640564039457584007913129639936 * (74146024575637952641515717071137253789221415303669355421199719439439703406460 + 115792089237316195423570985008687907853269984665640564039457584007913129639936 * (112580439347728630185483423194578932547315786612254781586282022085507081934628 + 115792089237316195423570985008687907853269984665640564039457584007913129639936 * (22659902124392238381382539363197486249119792489476065259465488493817784191155 + 115792089237316195423570985008687907853269984665640564039457584007913129639936 * (61755903165489786649518435932029003765506057117922123729626589614416021783875 + 115792089237316195423570985008687907853269984665640564039457584007913129639936 * (60022573913070993027684711505985454797155543489555647689077494972595227894954 + 115792089237316195423570985008687907853269984665640564039457584007913129639936 * (17480523668848776614095464815587079364677475725668543581379800990948920524257 + 115792089237316195423570985008687907853269984665640564039457584007913129639936 * (59535877682876377679432367154642901906658266762896823572804626279737725202922 + 115792089237316195423570985008687907853269984665640564039457584007913129639936 * (47224484404770374252920428374389266238912216961337024575163040043727))))))))))"
  unfolding bn_cofactor_def by (simp only: arith_simps)

lemma bn_exponents: "bn_exp1 + 9 = 27 * bn_exp2" "\<exists>k. bn_exp2 = 3 * k + 2"
proof -
  show "bn_exp1 + 9 = 27 * bn_exp2"
    unfolding bn_exp1_def bn_exp2_def by (simp only: arith_simps)
  have "bn_exp2 = 3 * 49765057976083280762935938343864917183634311165510610401983727085082400618604438642549873082063595196397410018017071519284033372113195708963215655347794140344871486172650208148128394661846231539063088783507073217268585693333442304434812774843886251889038400780865826686122904550590839696109820361870797804015512945929430286712757979863455049158576093803282133531560307820970505309085074800093813478421809657678171298149378908617876742906165212509934244402488704697647455588800231276792580303155137204166445113812641186625275477515401237865043946014898488029926286563849045587631579035508936513225916519095574099875192067191365213589117335317781665755376025678828718426715478668134934898654837393852438851571267360996848065925468814062312089942605581579632717552489909376904448199532492129238551164051805103990520150026237989337447012410143449922285264588220800499867844558920694171101310702402800666890037591460675 + 2"
    unfolding bn_exp2_def by (simp only: arith_simps)
  then show "\<exists>k. bn_exp2 = 3 * k + 2" ..
qed

lemma bn_cofactor_product: "bn_cofactor * bn_r + 1 = 3 * bn_exp2"
  unfolding bn_cofactor_limbs bn_exp2_def bn_r_def
  by (simp only: limb_times) (simp only: arith_simps)

lemma bn_r_inv_inverse: "\<exists>j. bn_r_inv * bn_r = 1 + 27 * (bn_cofactor * j)"
proof -
  have limbs: "bn_r_inv = 25460724871041883796065717983067007346927415823408593505727070915207936781473 + 115792089237316195423570985008687907853269984665640564039457584007913129639936 * (12800844323174687650808398062710888004689573596963029115558729613520356871561 + 115792089237316195423570985008687907853269984665640564039457584007913129639936 * (14134981901312225530505476664727810159355335968683572146357836534828711107103 + 115792089237316195423570985008687907853269984665640564039457584007913129639936 * (88545946627617079631125605620043640633482667155469251958965883079438956579940 + 115792089237316195423570985008687907853269984665640564039457584007913129639936 * (114907361200687414920069120478760711276145242459261403734380792447073704864185 + 115792089237316195423570985008687907853269984665640564039457584007913129639936 * (97765232280750133237726059365510169251175409913664358809849033409438874092923 + 115792089237316195423570985008687907853269984665640564039457584007913129639936 * (25156393787254227857902618713752757708354870961311264863165420598401469531125 + 115792089237316195423570985008687907853269984665640564039457584007913129639936 * (36942971959545327622971146412093700221042988870991291520076680858663245186543 + 115792089237316195423570985008687907853269984665640564039457584007913129639936 * (92553059929155123954244114472078185986353792680629089119532712121227115644241 + 115792089237316195423570985008687907853269984665640564039457584007913129639936 * (59930111295295493953975255650950682381581797711459699447485050172077437185786 + 115792089237316195423570985008687907853269984665640564039457584007913129639936 * (1144285583654051376133394527551550503167204208448910677776072616798138))))))))))"
    unfolding bn_r_inv_def by (simp only: arith_simps)
  have "bn_r_inv * bn_r = 1 + 27 * (bn_cofactor * 19643294884983964943126413892608379768747069902120451497747692904702226504701)"
    unfolding bn_cofactor_limbs limbs bn_r_def
    by (simp only: limb_times) (simp only: arith_simps)
  then show ?thesis ..
qed

lemma bn_m_inv_inverse: "\<exists>j. bn_m_inv * bn_m = 1 + 27 * (bn_cofactor * j)"
proof -
  have limbs: "bn_m_inv = 59794140226876992141956795584710681679000852088606837020745514760321100633783 + 115792089237316195423570985008687907853269984665640564039457584007913129639936 * (81574843103991095223003365846963467606916064284825574870073324447040490334108 + 115792089237316195423570985008687907853269984665640564039457584007913129639936 * (25372899810857172095850370950538665302413885544361454718048229179107201819944 + 115792089237316195423570985008687907853269984665640564039457584007913129639936 * (23775472841922832891289000442122453282575977751171218913744013965563787217214 + 115792089237316195423570985008687907853269984665640564039457584007913129639936 * (105011380856445736638207661902190989819596795784480737875173831537074027014197 + 115792089237316195423570985008687907853269984665640564039457584007913129639936 * (71013265313026936871708624498598413230479922578549123379843903581676396946265 + 115792089237316195423570985008687907853269984665640564039457584007913129639936 * (114542972930284211664312185849878631192553581917853604263467736249004022460620 + 115792089237316195423570985008687907853269984665640564039457584007913129639936 * (60413976658598572687907454179881965257441796880289412684598131424348906702086 + 115792089237316195423570985008687907853269984665640564039457584007913129639936 * (103671791061927981411965134717422491931653153684481353246021511601899875441454 + 115792089237316195423570985008687907853269984665640564039457584007913129639936 * (42153562712075095410792499529716691487472141458143821978329233961268355136459 + 115792089237316195423570985008687907853269984665640564039457584007913129639936 * (41172995297498749787968790035821692588179862519855519505094253328084))))))))))"
    unfolding bn_m_inv_def by (simp only: arith_simps)
  have limbs': "bn_m = 69265135787193350439870396274904634847450072045144871907943472960886502895303 + 115792089237316195423570985008687907853269984665640564039457584007913129639936 * (1379182231337398771205171606539924766525693827907273778401360494897590325706)"
    unfolding bn_m_def by (simp only: arith_simps)
  have "bn_m_inv * bn_m = 1 + 27 * (bn_cofactor * (81362310455896543730949494250242834275898819225872931434406251823696647916866 + 115792089237316195423570985008687907853269984665640564039457584007913129639936 * (44535171266426407795710515934696509723191880238572573411702518663725317585)))"
    unfolding limbs' times_limb [of bn_m_inv] times_limb [of bn_cofactor]
    unfolding bn_cofactor_limbs limbs
    by (simp only: limb_times) (simp only: arith_simps)
  then show ?thesis ..
qed

lemma bn_lambda_product: "bn_lambda = 3 * (bn_r * bn_m)"
proof -
  have "bn_p ^ 2 = 479095176016622842441988045216678740799252316531100822436447802254070093686378237447841051819437871971188232314813100261836255634139586948646393022867889"
    unfolding power2_eq_square bn_p_def by (simp only: arith_simps)
  moreover have "bn_p ^ 3 = 10486551571378427818905133077457505975146652579011797175399169355881771981095690978989761122588000397834221810876296023257824090243867683078475217242544741121301747644787422814444041173890001246409592307627484170869318436766891287"
    unfolding power3_eq_cube bn_p_def by (simp only: arith_simps)
  ultimately show ?thesis
    unfolding bn_lambda_def bn_r_def bn_m_def bn_p_def by simp
qed

lemma bn_group_order: "bn_p ^ 12 = 3 * bn_exp1 + 1"
proof -
  define p2 p4 p8 where "p2 = bn_p * bn_p" and "p4 = p2 * p2" and "p8 = p4 * p4"
  have "p2 = 1994097994880475507519040458855034912025718176994801861240415525295080958385 + 115792089237316195423570985008687907853269984665640564039457584007913129639936 * (4137546694012196313615514819619774299549115026185221663042307357682442875789)"
    unfolding p2_def bn_p_def by (simp only: arith_simps)
  then have p4: "p4 = 103977279533343421611925548049101076847804379209125003918209218749777504414817 + 115792089237316195423570985008687907853269984665640564039457584007913129639936 * (15421140708813318222820110543154566959248478357349096448224586856445849465876 + 115792089237316195423570985008687907853269984665640564039457584007913129639936 * (105954477481809770647462764178928530430317518401754381624697423094396461431347 + 115792089237316195423570985008687907853269984665640564039457584007913129639936 * (147845096827342145792564175205688476836543143080689511304008838437033673526)))"
    unfolding p4_def by (simp only: arith_simps)
  have "p8 = p4 * (103977279533343421611925548049101076847804379209125003918209218749777504414817 + 115792089237316195423570985008687907853269984665640564039457584007913129639936 * (15421140708813318222820110543154566959248478357349096448224586856445849465876 + 115792089237316195423570985008687907853269984665640564039457584007913129639936 * (105954477481809770647462764178928530430317518401754381624697423094396461431347 + 115792089237316195423570985008687907853269984665640564039457584007913129639936 * (147845096827342145792564175205688476836543143080689511304008838437033673526))))"
    unfolding p8_def using p4 by (rule arg_cong)
  also have "\<dots> = 41643270893139479889549977379039556031270286928467994781203720384830526618817 + 115792089237316195423570985008687907853269984665640564039457584007913129639936 * (104100411314705958232255938979053387640396373042818962350337725773850152002439 + 115792089237316195423570985008687907853269984665640564039457584007913129639936 * (34681678876459783334403524665118274006864914374692338583630042842322281288610 + 115792089237316195423570985008687907853269984665640564039457584007913129639936 * (51468032062232064015401936611932970303416727353771805054746501812537028259874 + 115792089237316195423570985008687907853269984665640564039457584007913129639936 * (66385318369299002101532433148527293286851802181956002678744133365224812144410 + 115792089237316195423570985008687907853269984665640564039457584007913129639936 * (19071165576180174726380534116619770927478303978180262051956482343874985038900 + 115792089237316195423570985008687907853269984665640564039457584007913129639936 * (20514919282058267989303075799764342939027015126110547997696810544629190245494 + 115792089237316195423570985008687907853269984665640564039457584007913129639936 * (188770863362589403871605046645079288089020629906607339842252180305747057)))))))"
    unfolding times_limb [of p4] unfolding p4 by (simp only: limb_times) (simp only: arith_simps)
  finally have p8: "p8 = 41643270893139479889549977379039556031270286928467994781203720384830526618817 + 115792089237316195423570985008687907853269984665640564039457584007913129639936 * (104100411314705958232255938979053387640396373042818962350337725773850152002439 + 115792089237316195423570985008687907853269984665640564039457584007913129639936 * (34681678876459783334403524665118274006864914374692338583630042842322281288610 + 115792089237316195423570985008687907853269984665640564039457584007913129639936 * (51468032062232064015401936611932970303416727353771805054746501812537028259874 + 115792089237316195423570985008687907853269984665640564039457584007913129639936 * (66385318369299002101532433148527293286851802181956002678744133365224812144410 + 115792089237316195423570985008687907853269984665640564039457584007913129639936 * (19071165576180174726380534116619770927478303978180262051956482343874985038900 + 115792089237316195423570985008687907853269984665640564039457584007913129639936 * (20514919282058267989303075799764342939027015126110547997696810544629190245494 + 115792089237316195423570985008687907853269984665640564039457584007913129639936 * (188770863362589403871605046645079288089020629906607339842252180305747057)))))))" .
  have "p8 * p4 = p8 * (103977279533343421611925548049101076847804379209125003918209218749777504414817 + 115792089237316195423570985008687907853269984665640564039457584007913129639936 * (15421140708813318222820110543154566959248478357349096448224586856445849465876 + 115792089237316195423570985008687907853269984665640564039457584007913129639936 * (105954477481809770647462764178928530430317518401754381624697423094396461431347 + 115792089237316195423570985008687907853269984665640564039457584007913129639936 * (147845096827342145792564175205688476836543143080689511304008838437033673526))))"
    using p4 by (rule arg_cong)
  also have "\<dots> = 3 * bn_exp1 + 1"
    unfolding times_limb [of p8] unfolding p8 bn_exp1_def by (simp only: limb_times) (simp only: arith_simps)
  moreover have "bn_p ^ 12 = p8 * p4"
    unfolding p8_def p4_def p2_def by (simp add: eval_nat_numeral)
  ultimately show ?thesis
    by (simp only:)
qed

end
