(* ===== verification/Bn254_Witness.thy ===== *)
theory Bn254_Witness
  imports Bn254_Numbers
begin

text \<open>
  The residue witness of \<^verbatim>\<open>bn254_hint.rs\<close> is one: both loops of \<^verbatim>\<open>final_exp_hint\<close> end, and its result
  satisfies the equation the guest checks in place of the final exponentiation.
\<close>

section \<open>Cubing up to one\<close>

lemma ts_loop_ends:
  assumes cyc: "cyclic_tower T g n"
  shows "n dvd 3 ^ k * y \<Longrightarrow> \<exists>j \<le> k. ts_loop T (fq12_pow T g y) t = Some (fq12_one T, t + of_nat j) \<and>
    (j = 0 \<longleftrightarrow> n dvd y)"
proof (induction k arbitrary: y t)
  case 0
  then have "fq12_pow T g y = fq12_one T"
    by (simp only: cyclic_tower_rules(2,6) [OF cyc] power_0 mult_1)
  with 0 show ?case
    by (subst ts_loop.simps) (simp only: simp_thms if_False le_0_eq, simp)
next
  case (Suc k)
  show ?case
  proof (cases "n dvd y")
    case True
    then have "fq12_pow T g y = fq12_one T"
      by (simp only: cyclic_tower_rules(2,6) [OF cyc])
    then have "ts_loop T (fq12_pow T g y) t = Some (fq12_one T, t)"
      by (subst ts_loop.simps) simp
    with True show ?thesis
      by (intro exI [of _ 0]) simp
  next
    case False
    then have ne: "fq12_pow T g y \<noteq> fq12_one T"
      by (simp only: cyclic_tower_rules(2,6) [OF cyc] simp_thms)
    have "n dvd 3 ^ k * (3 * y)"
      using Suc.prems by (simp add: ac_simps)
    from Suc.IH [OF this, of "t + 1"] obtain j where
      j: "j \<le> k" "ts_loop T (fq12_pow T g (3 * y)) (t + 1) = Some (fq12_one T, t + 1 + of_nat j)"
      by blast
    have "y + (y + y) = 3 * y"
      by simp
    with ne j have "ts_loop T (fq12_pow T g y) t = Some (fq12_one T, t + of_nat (Suc j))"
      by (subst ts_loop.simps) (simp only: Let_def if_True simp_thms cyclic_tower_rules(3) [OF cyc], simp)
    with False j(1) show ?thesis
      by (intro exI [of _ "Suc j"]) simp
  qed
qed

lemma ts_loop_count:
  assumes cyc: "cyclic_tower T g n" and "n dvd 27 * y"
  shows "\<exists>t. ts_loop T (fq12_pow T g y) 0 = Some (fq12_one T, t) \<and> (t = 0 \<longleftrightarrow> n dvd y)"
proof -
  have "n dvd 3 ^ 3 * y"
    using assms(2) by simp
  from ts_loop_ends [OF cyc this, of 0] obtain j where
    j: "j \<le> 3" "ts_loop T (fq12_pow T g y) 0 = Some (fq12_one T, of_nat j)" "j = 0 \<longleftrightarrow> n dvd y"
    by auto
  have "(of_nat j :: u32) = 0 \<longleftrightarrow> j = 0"
    using j(1) by (simp add: word_unat_eq_iff unat_of_nat)
  with j show ?thesis
    by auto
qed

text \<open>The search for the cube root: the exponent of the candidate grows by that of the correction until
  the cube of the candidate is \<open>c\<close>.\<close>

lemma cube_root_loop_ends:
  assumes cyc: "cyclic_tower T g n"
    and on_grid: "\<And>i. n dvd 27 * (3 * (x + i * d) + v)"
    and "i \<le> k" "n dvd 3 * (x + k * d) + v"
    and "t = 0 \<longleftrightarrow> n dvd 3 * (x + i * d) + v"
  shows "\<exists>j. cube_root_loop T (fq12_pow T g d) (fq12_pow T g v) (fq12_pow T g (x + i * d)) t =
      Some (fq12_pow T g (x + j * d)) \<and> n dvd 3 * (x + j * d) + v"
  using assms(3-5)
proof (induction "k - i" arbitrary: i t)
  case 0
  then have "t = 0"
    by simp
  with 0 show ?case
    by (subst cube_root_loop.simps) (intro exI [of _ i], simp)
next
  case (Suc m)
  show ?case
  proof (cases "t = 0")
    case True
    with Suc.prems show ?thesis
      by (subst cube_root_loop.simps) (intro exI [of _ i], simp)
  next
    case False
    let ?x = "x + Suc i * d"
    obtain t' where t': "ts_loop T (fq12_pow T g (3 * ?x + v)) 0 = Some (fq12_one T, t')"
      "t' = 0 \<longleftrightarrow> n dvd 3 * ?x + v"
      using ts_loop_count [OF cyc on_grid] by blast
    have "i \<noteq> k"
      using False Suc.prems by blast
    with Suc.prems Suc.hyps(2) have "m = k - Suc i" "Suc i \<le> k"
      by auto
    from Suc.hyps(1) [OF this(1,2) Suc.prems(2) t'(2)] obtain j where
      j: "cube_root_loop T (fq12_pow T g d) (fq12_pow T g v) (fq12_pow T g ?x) t' = Some (fq12_pow T g (x + j * d))"
      "n dvd 3 * (x + j * d) + v"
      by blast
    have e: "x + i * d + d = ?x" "?x + ?x + ?x + v = 3 * ?x + v"
      by simp_all
    have "cube_root_loop T (fq12_pow T g d) (fq12_pow T g v) (fq12_pow T g (x + i * d)) t =
        cube_root_loop T (fq12_pow T g d) (fq12_pow T g v) (fq12_pow T g ?x) t'"
      using False t'(1)
      by (subst cube_root_loop.simps) (simp only: Let_def if_True simp_thms cyclic_tower_rules(3) [OF cyc] e
          option.case prod.case)
    with j show ?thesis
      by auto
  qed
qed

section \<open>The residue witness of BN254\<close>

lemma cubic_residue_shift_exponent:
  assumes cyc: "cyclic_tower T g n" and n: "n = 3 * bn_exp1" "0 < bn_exp1"
    and w: "\<not> 3 dvd w" and root: "unity_root_27 T = fq12_pow T g w"
  shows "\<exists>j < 3. cubic_residue_shift T (fq12_pow T g a) =
      (fq12_pow T g (a + j * w), fq12_pow T g (j * w)) \<and> 3 dvd a + j * w"
proof -
  have test: "fq12_pow T (fq12_pow T g x) bn_exp1 = fq12_one T \<longleftrightarrow> 3 dvd x" for x
    unfolding cyclic_tower_rules(2,4,6) [OF cyc] n(1) using n(2) by simp
  show ?thesis
  proof (cases "3 dvd a")
    case True
    then have "cubic_residue_shift T (fq12_pow T g a) = (fq12_pow T g a, fq12_one T)"
      unfolding cubic_residue_shift_def Let_def test by simp
    with True show ?thesis
      by (intro exI [of _ 0]) (simp add: cyclic_tower_rules(2) [OF cyc])
  next
    case not_a: False
    show ?thesis
    proof (cases "3 dvd a + w")
      case True
      with not_a have "cubic_residue_shift T (fq12_pow T g a) = (fq12_pow T g (a + w), fq12_pow T g w)"
        unfolding cubic_residue_shift_def Let_def root cyclic_tower_rules(3) [OF cyc] test by simp
      with True show ?thesis
        by (intro exI [of _ 1]) simp
    next
      case False
      have "a + w + w = a + 2 * w" "w + w = 2 * w"
        by simp_all
      with not_a False have "cubic_residue_shift T (fq12_pow T g a) =
          (fq12_pow T g (a + 2 * w), fq12_pow T g (2 * w))"
        unfolding cubic_residue_shift_def Let_def root cyclic_tower_rules(3) [OF cyc] test by (simp only: if_False)
      with three_shifts [OF w not_a False] show ?thesis
        by (intro exI [of _ 2]) simp
    qed
  qed
qed

lemma cube_root_search:
  assumes cyc: "cyclic_tower T g n" and n: "n = 27 * s" and e2: "s + 1 = 3 * e2" "\<not> 3 dvd e2"
    and w': "\<not> 3 dvd w'" and b: "3 dvd b" and v: "n dvd b + v"
  defines "d \<equiv> s * w' * e2"
  shows "\<exists>t X. ts_loop T (fq12_pow T g (3 * (b * e2) + v)) 0 = Some (fq12_one T, t) \<and>
    cube_root_loop T (fq12_pow T g d) (fq12_pow T g v) (fq12_pow T g (b * e2)) t = Some (fq12_pow T g X) \<and>
    n dvd 3 * X + v"
proof -
  have shape: "3 * (b * e2 + i * d) + v = (b + v) + s * (b + 3 * i * (w' * e2))" for i
  proof -
    have "3 * (b * e2 + i * d) + v = b * (3 * e2) + 3 * i * d + v"
      by (simp add: algebra_simps)
    then show ?thesis
      unfolding e2(1) [symmetric] d_def by (simp add: algebra_simps)
  qed
  have on_grid: "n dvd 27 * (3 * (b * e2 + i * d) + v)" for i
  proof -
    have "27 * (3 * (b * e2 + i * d) + v) = 27 * (b + v) + n * (b + 3 * i * (w' * e2))"
      unfolding shape n by (simp only: distrib_left mult.assoc)
    with v show ?thesis
      by (simp only: dvd_add dvd_mult dvd_triv_left)
  qed
  obtain b' where b': "b = 3 * b'"
    using b ..
  have "\<not> 3 dvd w' * e2"
    using w' e2(2) by (simp add: three_dvd_mult)
  then obtain k where k: "k \<le> 8" "9 dvd b' + k * (w' * e2)"
    using shift_to_nine by blast
  have "27 dvd 3 * (b' + k * (w' * e2))"
    using k(2) by presburger
  moreover have "b + 3 * k * (w' * e2) = 3 * (b' + k * (w' * e2))"
    unfolding b' by simp
  ultimately have "27 * s dvd s * (b + 3 * k * (w' * e2))"
    by (metis mult.commute mult_dvd_mono dvd_refl)
  then have ends: "n dvd 3 * (b * e2 + k * d) + v"
    unfolding shape n by (rule dvd_add [OF v [unfolded n]])
  have "n dvd 27 * (3 * (b * e2) + v)"
    using on_grid [of 0] by (simp only: mult_0 add_0_right)
  then obtain t where t: "ts_loop T (fq12_pow T g (3 * (b * e2) + v)) 0 = Some (fq12_one T, t)"
    "t = 0 \<longleftrightarrow> n dvd 3 * (b * e2) + v"
    using ts_loop_count [OF cyc] by blast
  have "t = 0 \<longleftrightarrow> n dvd 3 * (b * e2 + 0 * d) + v"
    using t(2) by simp
  from cube_root_loop_ends [OF cyc on_grid le0 ends this]
  obtain j where "cube_root_loop T (fq12_pow T g d) (fq12_pow T g v) (fq12_pow T g (b * e2 + 0 * d)) t =
      Some (fq12_pow T g (b * e2 + j * d))" "n dvd 3 * (b * e2 + j * d) + v"
    by blast
  with t(1) show ?thesis
    by (intro exI conjI) (assumption | simp only: mult_0 add_0_right)+
qed

lemma bn_residue_exponents:
  assumes cyc: "cyclic_tower T g n" and n: "n = 27 * (bn_cofactor * bn_r)"
    and w: "\<not> 3 dvd w'" and b: "3 dvd b"
  shows "\<exists>v t X. fq12_inverse T (fq12_pow T g b) = Some (fq12_pow T g v) \<and>
    ts_loop T (fq12_pow T g (3 * (b * bn_exp2) + v)) 0 = Some (fq12_one T, t) \<and>
    cube_root_loop T (fq12_pow T g (bn_cofactor * bn_r * w' * bn_exp2)) (fq12_pow T g v)
      (fq12_pow T g (b * bn_exp2)) t = Some (fq12_pow T g X) \<and> (3 * X) mod n = b mod n"
proof -
  obtain v where v: "fq12_inverse T (fq12_pow T g b) = Some (fq12_pow T g v)" "n dvd b + v"
    using cyclic_tower_rules(7) [OF cyc] by blast
  have "\<not> 3 dvd bn_exp2"
    using bn_exponents(2) by presburger
  from cube_root_search [OF cyc n bn_cofactor_product this w b v(2)] v show ?thesis
    using mod_eq_add by metis
qed

lemma bn_hint_exponents:
  assumes cyc: "cyclic_tower T g n" and n: "n = 27 * (bn_cofactor * bn_r)"
    and root: "unity_root_27 T = fq12_pow T g (bn_cofactor * bn_r * w')" and w: "\<not> 3 dvd w'"
    and a: "bn_r dvd a"
  shows "\<exists>j X. j < 3 \<and> bn_final_exp_hint T (fq12_pow T g a) =
      Inr (fq12_pow T g X, fq12_pow T g (j * (bn_cofactor * bn_r * w'))) \<and>
    (X * bn_lambda) mod n = (a + j * (bn_cofactor * bn_r * w')) mod n"
proof -
  let ?w = "bn_cofactor * bn_r * w'"
  note rules = cyclic_tower_rules [OF cyc]
  have e1: "n = 3 * bn_exp1" "0 < bn_exp1"
    using bn_cofactor_product bn_exponents(1) rules(1) unfolding n by linarith+
  obtain k where "bn_exp2 = 3 * k + 2"
    using bn_exponents(2) ..
  then have "\<not> 3 dvd bn_cofactor * bn_r"
    using bn_cofactor_product by presburger
  with w have "\<not> 3 dvd ?w"
    by (simp only: three_dvd_mult simp_thms)
  from cubic_residue_shift_exponent [OF cyc e1 this root] obtain j where j: "j < 3"
    "cubic_residue_shift T (fq12_pow T g a) = (fq12_pow T g (a + j * ?w), fq12_pow T g (j * ?w))"
    "3 dvd a + j * ?w"
    by blast
  define b where "b = (a + j * ?w) * bn_r_inv * bn_m_inv"
  have "3 dvd b"
    unfolding b_def by (intro dvd_mult2 j(3))
  from bn_residue_exponents [OF cyc n w this] obtain v t X where
    X: "fq12_inverse T (fq12_pow T g b) = Some (fq12_pow T g v)"
    "ts_loop T (fq12_pow T g (3 * (b * bn_exp2) + v)) 0 = Some (fq12_one T, t)"
    "cube_root_loop T (fq12_pow T g (?w * bn_exp2)) (fq12_pow T g v) (fq12_pow T g (b * bn_exp2)) t =
      Some (fq12_pow T g X)" "(3 * X) mod n = b mod n"
    by blast
  have cube: "b * bn_exp2 + b * bn_exp2 + b * bn_exp2 + v = 3 * (b * bn_exp2) + v"
    by simp
  have "bn_final_exp_hint T (fq12_pow T g a) = Inr (fq12_pow T g X, fq12_pow T g (j * ?w))"
    unfolding bn_final_exp_hint_def Let_def j(2) prod.case root rules(3,4) b_def [symmetric] X(1) option.case
      cube X(2) X(3) ..
  moreover have "(X * bn_lambda) mod n = (a + j * ?w) mod n"
  proof -
    obtain i i' where "bn_r_inv * bn_r = 1 + 27 * bn_cofactor * i" "bn_m_inv * bn_m = 1 + 27 * bn_cofactor * i'"
      using bn_r_inv_inverse bn_m_inv_inverse by (metis mult.assoc)
    moreover have "bn_r dvd a + j * ?w"
      by (intro dvd_add a dvd_mult dvd_mult2 dvd_refl)
    moreover have "n = 27 * bn_cofactor * bn_r"
      unfolding n by (simp only: mult.assoc)
    ultimately have "b * (bn_r * bn_m) mod n = (a + j * ?w) mod n"
      unfolding b_def by (rule mult_inverse_pair)
    moreover have "X * bn_lambda = 3 * X * (bn_r * bn_m)"
      unfolding bn_lambda_product by (simp only: ac_simps)
    ultimately show ?thesis
      using X(4) by (metis mod_mult_left_eq)
  qed
  ultimately show ?thesis
    using j(1) by blast
qed

text \<open>C37. The residue witness of BN254. In a tower whose multiplicative group is cyclic of order
  \<open>p\<^sup>1\<^sup>2 - 1\<close>, with the code's constant a primitive 27th root of unity, every \<open>f\<close> whose final exponentiation
  \<open>f ^ ((p\<^sup>1\<^sup>2 - 1) / r)\<close> is one makes \<^verbatim>\<open>final_exp_hint\<close> return: both loops end, and the elements \<open>c\<close>, \<open>u\<close> it
  gives satisfy the equation the guest checks, \<open>c ^ \<lambda> = f u\<close> with \<open>\<lambda> = 6x + 2 + p - p\<^sup>2 + p\<^sup>3\<close>, where \<open>u\<close> is a
  power of the root.\<close>

theorem bn_residue_equation:
  assumes cyc: "cyclic_tower T g (bn_p ^ 12 - 1)"
    and root: "unity_root_27 T = fq12_pow T g w" "fq12_pow T (unity_root_27 T) 27 = fq12_one T"
      "fq12_pow T (unity_root_27 T) 9 \<noteq> fq12_one T"
    and f: "f = fq12_pow T g a" "fq12_pow T f ((bn_p ^ 12 - 1) div bn_r) = fq12_one T"
  shows "\<exists>c u. bn_final_exp_hint T f = Inr (c, u) \<and> fq12_pow T c bn_lambda = fq12_mul T f u \<and>
    (\<exists>j < 3. u = fq12_pow T (unity_root_27 T) j)"
proof -
  note rules = cyclic_tower_rules [OF cyc]
  let ?n = "bn_p ^ 12 - 1" and ?s = "bn_cofactor * bn_r"
  have n: "?n = 27 * ?s"
    using bn_group_order bn_exponents(1) bn_cofactor_product by linarith
  have pos: "0 < ?s" "0 < bn_r"
    using rules(1) unfolding n by simp_all
  have "27 * ?s dvd w * 27"
    using root(2) unfolding root(1) rules(2,4,6) n .
  then have "?s dvd w"
    by (simp add: mult.commute)
  then obtain w' where w': "w = ?s * w'" ..
  have "\<not> 27 * ?s dvd w * 9"
    using root(3) unfolding root(1) rules(2,4,6) n .
  then have "\<not> 3 dvd w'"
    using pos(1) unfolding w' by (auto simp: dvd_def)
  have "27 * ?s dvd a * (27 * bn_cofactor)"
    using f(2) unfolding f(1) rules(2,4,6) n using pos(2) by (simp add: mult.assoc [symmetric])
  then have "bn_r dvd a"
    using pos(1) by (simp add: mult.commute mult.left_commute)
  from bn_hint_exponents [OF cyc n root(1) [unfolded w'] \<open>\<not> 3 dvd w'\<close> this] obtain j X where
    "j < 3" "bn_final_exp_hint T f = Inr (fq12_pow T g X, fq12_pow T g (j * w))"
    "(X * bn_lambda) mod ?n = (a + j * w) mod ?n"
    unfolding f(1) w' by blast
  moreover have "fq12_pow T g (j * w) = fq12_pow T (unity_root_27 T) j"
    unfolding root(1) rules(4) by (simp only: mult.commute)
  ultimately show ?thesis
    unfolding f(1) by (metis rules(3,4,5))
qed

lemma exponent_tower_root: "unity_root_27 (exponent_tower n w) = power_element w"
  by (simp add: unity_root_27_def exponent_tower_def power_element_def Let_def)

lemma bn_residue_equation_witness:
  "let T = exponent_tower (bn_p ^ 12 - 1) (bn_cofactor * bn_r); f = power_element bn_r in
    \<exists>c u. bn_final_exp_hint T f = Inr (c, u) \<and> fq12_pow T c bn_lambda = fq12_mul T f u \<and>
      (\<exists>j < 3. u = fq12_pow T (unity_root_27 T) j)"
proof -
  let ?n = "bn_p ^ 12 - 1" and ?w = "bn_cofactor * bn_r"
  have n: "?n = 27 * ?w"
    using bn_group_order bn_exponents(1) bn_cofactor_product by linarith
  have pos: "0 < bn_cofactor" "1 < bn_r"
    unfolding bn_cofactor_def bn_r_def by simp_all
  then have "1 * 1 < 27 * ?w"
    by (intro mult_less_le_imp_less) (simp_all add: Suc_le_eq)
  then have big: "1 < ?n" "?w < ?n" "9 * ?w < ?n" "bn_r < ?n"
    using pos unfolding n by simp_all
  have root: "unity_root_27 (exponent_tower ?n ?w) = fq12_pow (exponent_tower ?n ?w) (power_element 1) ?w"
    unfolding exponent_tower_root exponent_tower_pow(1) [OF big(1)] using big(2) by simp
  have cubes: "fq12_pow (exponent_tower ?n ?w) (unity_root_27 (exponent_tower ?n ?w)) 27 = fq12_one (exponent_tower ?n ?w)"
    unfolding exponent_tower_root exponent_tower_pow(2,3) power_element_eq unfolding n by (simp add: mult.commute)
  have primitive: "fq12_pow (exponent_tower ?n ?w) (unity_root_27 (exponent_tower ?n ?w)) 9 \<noteq> fq12_one (exponent_tower ?n ?w)"
    unfolding exponent_tower_root exponent_tower_pow(2,3) power_element_eq
    using big(3) pos by (simp add: mult.commute)
  have f: "power_element bn_r = fq12_pow (exponent_tower ?n ?w) (power_element 1) bn_r"
    unfolding exponent_tower_pow(1) [OF big(1)] using big(4) by simp
  have "?n div bn_r * bn_r = ?n"
    unfolding n by (simp only: mult.assoc [symmetric] dvd_div_mult_self dvd_triv_right)
  then have "fq12_pow (exponent_tower ?n ?w) (power_element bn_r) (?n div bn_r) = fq12_one (exponent_tower ?n ?w)"
    unfolding exponent_tower_pow(2,3) power_element_eq by (simp add: mult.commute)
  from bn_residue_equation [OF exponent_tower_cyclic [OF big(1)] root cubes primitive f this]
  show ?thesis
    unfolding Let_def .
qed

end
