(* ===== verification/Bls12_Numbers.thy ===== *)
theory Bls12_Numbers
  imports Bls12 Config Residue
begin

text \<open>
  The arithmetic of the constants of \<^verbatim>\<open>bls12_381_hint.rs\<close>: the final exponentiation factor, the
  polynomial factor, 27 and the order of the groups make up \<open>q ^ 12 - 1\<close>, and the inverses the code
  takes exist. Products of large numbers are checked limb by limb, in base \<open>2 ^ 256\<close>.
\<close>

definition bls_q :: nat where
  "bls_q = 4002409555221667393417789825735904156556882819939007885332058136124031650490837864442687629129015664037894272559787"

definition bls_r :: nat where
  "bls_r = 52435875175126190479447740508185965837690552500527637822603658699938581184513"

lemma bls_moduli: "bls_q = me_modulus (default_moduli ! 6)" "bls_r = me_modulus (default_moduli ! 7)"
  by (simp_all add: bls_q_def bls_r_def default_moduli_def)

lemma bls_factor_limbs: "final_exp_factor = 73273473848184876898381176830325648256198317114552804134095111272201928962192 + 115792089237316195423570985008687907853269984665640564039457584007913129639936 * (57352343094966902330383786872595613961838843507546621742544759477330201117156 + 115792089237316195423570985008687907853269984665640564039457584007913129639936 * (7512600007614680507282364859092910240771941577524806646884926174324163928339 + 115792089237316195423570985008687907853269984665640564039457584007913129639936 * (45011627722549761806444791438113987328112012006397792580714665351422285564331 + 115792089237316195423570985008687907853269984665640564039457584007913129639936 * (47285925082084949539447549386224281929765260702474578619909097990027138391783 + 115792089237316195423570985008687907853269984665640564039457584007913129639936 * (75640880905292303575866932186050769936217710392610543325822602871280758262301 + 115792089237316195423570985008687907853269984665640564039457584007913129639936 * (99258243431497132186676689159018122874534574206142762602222306238478678611504 + 115792089237316195423570985008687907853269984665640564039457584007913129639936 * (15904669720696470489280303444074436567687392692610738776266337968674300821457 + 115792089237316195423570985008687907853269984665640564039457584007913129639936 * (67107132861383448330904196021334535830339716250493243129276753892920869764396 + 115792089237316195423570985008687907853269984665640564039457584007913129639936 * (77468337806315728569162487375597792730280961830778225204286301567760628060556 + 115792089237316195423570985008687907853269984665640564039457584007913129639936 * (23933341302560024835965249421650813301418624644120827325150759788238108058968 + 115792089237316195423570985008687907853269984665640564039457584007913129639936 * (22838949803840754059812181110167194305724771401812380635099831549944265923254 + 115792089237316195423570985008687907853269984665640564039457584007913129639936 * (18142343717527395415824315484516256098414388452069785839879103439588531993753 + 115792089237316195423570985008687907853269984665640564039457584007913129639936 * (25256310630507923502303402426414172904205657692148165311344925109413983534043 + 115792089237316195423570985008687907853269984665640564039457584007913129639936 * (86069648989561276392413528225247336786522651851767352819676798348506228324099 + 115792089237316195423570985008687907853269984665640564039457584007913129639936 * (42766128680828784143529321140983763089455053845521599472449628499738913656107 + 115792089237316195423570985008687907853269984665640564039457584007913129639936 * (2265780944877878802387451294598479789350307841))))))))))))))))"
  unfolding final_exp_factor_def by (simp only: arith_simps)

lemma bls_inverse_27: "\<exists>x y. (final_exp_factor * 27) * x = 1 + poly_factor * y"
proof -
  have "(final_exp_factor * 27) * 2662177298480474188 = 1 + poly_factor * (56061844834024925776475670669471560009395386549270180596013221549723129628349 + 115792089237316195423570985008687907853269984665640564039457584007913129639936 * (45052644004796703111718965678989163856846483112068587871804877219731543323385 + 115792089237316195423570985008687907853269984665640564039457584007913129639936 * (476680453785703096678098497388509629068950090914645326964267388179893001026 + 115792089237316195423570985008687907853269984665640564039457584007913129639936 * (52637131803099378707783692604199610871975166350055661196302329342951387257797 + 115792089237316195423570985008687907853269984665640564039457584007913129639936 * (74216903412127534045771676118373791583245036426026435350188216086618997239379 + 115792089237316195423570985008687907853269984665640564039457584007913129639936 * (41670907913111280974294469114207239250590653426140693072716656083012205007324 + 115792089237316195423570985008687907853269984665640564039457584007913129639936 * (104118551495450947871695909510096206987450226455330951441417396923306725997254 + 115792089237316195423570985008687907853269984665640564039457584007913129639936 * (24327886280654775274442649522075180770996506906281446240798459476450083520172 + 115792089237316195423570985008687907853269984665640564039457584007913129639936 * (10059583771805568572454854590420615546819924063019620335227587987398251299073 + 115792089237316195423570985008687907853269984665640564039457584007913129639936 * (50165989784098756971454643272588263347294674889437324158959670241838448292432 + 115792089237316195423570985008687907853269984665640564039457584007913129639936 * (64979172250992955305326493332631394683831694689629143971531618111450555883644 + 115792089237316195423570985008687907853269984665640564039457584007913129639936 * (26047813776855337650202967418087458507239881690747722089142849472664540262984 + 115792089237316195423570985008687907853269984665640564039457584007913129639936 * (72056931555168290377407496283648640272976125991983757939017601541110279204988 + 115792089237316195423570985008687907853269984665640564039457584007913129639936 * (20954985687438691651926039721543979582272462383512451427378714594321800231191 + 115792089237316195423570985008687907853269984665640564039457584007913129639936 * (12309721284464009768495462657916270185351481736989294589969538805596546152330 + 115792089237316195423570985008687907853269984665640564039457584007913129639936 * (80811092340415950233721533766086936748364391359197130718827681749439317947563 + 115792089237316195423570985008687907853269984665640564039457584007913129639936 * (32287378464509772933684286923529638310741493363)))))))))))))))))"
    unfolding times_limb [of poly_factor]
    unfolding bls_factor_limbs poly_factor_def
    by (simp only: limb_times) (simp only: arith_simps)
  then show ?thesis
    by blast
qed

lemma bls_tenth: "\<exists>k. final_exp_factor * (10 * poly_factor) = 1 + 27 * k"
proof -
  have "final_exp_factor * (10 * poly_factor) = 1 + 27 * 4420814286926394245032806098580386006973662133262393610677183649180914417573452438888870788718518640603199585927358678913292019319297387843888686735612614382860272083351207325333317008495796061716938940058723492591998229321887765649757028801416828714271027458594104089848208002200022146794706266466972179973653817420500830800759649433530493756946595307032605913336085412097618836552023597663633711379043360073179157818409963633719053254442285793959363493353481725227378306659722252599352402233002060397223253774706230513343641782679512557919407558063561570519948961353856437902229289712543917594607481626505273686320858573573105052727588752732165270531166215138516762930569466435859023111713656767769970418696290810640278267815323037563052740098338998285003999019688289674305957976957191785259186372634436478060550175627343136609402786253775729783253518919148729261444797887404930506369052247742945412639344326106502712946431075596871362219753986435137785484340384846395227125807897385899481608307273774133944919572154917973740892627966000487213773710925704152720024724638646111697455099314245470238180443142894085125112091455026072858145947234229639573384574217834630998381548787195388385351960524288684351058027562893369843466899969390477894642751736087859505976239785942675572699639966840023437"
    unfolding bls_factor_limbs poly_factor_def
    by (simp only: limb_times) (simp only: arith_simps)
  then show ?thesis ..
qed

lemma bls_lambda_inverse: "\<exists>x y. bls_lambda * x = 1 + final_exp_factor * y"
proof -
  have "bls_lambda * (94439276348254221612405770312664371105757480466748845195182582789827262901283 + 115792089237316195423570985008687907853269984665640564039457584007913129639936 * (70323254902040532017866072947470082196794311790087579785408125582616336102674 + 115792089237316195423570985008687907853269984665640564039457584007913129639936 * (105265322388725064521986081018403003080366934935569285166468932402195481171589 + 115792089237316195423570985008687907853269984665640564039457584007913129639936 * (20400614818822359275173584922676765168376688176801417384815884217162312257411 + 115792089237316195423570985008687907853269984665640564039457584007913129639936 * (16228378854639435903636777738097928428899622303184063546604054122160663910334 + 115792089237316195423570985008687907853269984665640564039457584007913129639936 * (27787926373939689947455244039299264407233908068604566433569408897808666732621 + 115792089237316195423570985008687907853269984665640564039457584007913129639936 * (13911586041654780906328190482777224326339083123526630895017139676991387105664 + 115792089237316195423570985008687907853269984665640564039457584007913129639936 * (56440745650607523512239761526672177549840492805261284769266433049699165252571 + 115792089237316195423570985008687907853269984665640564039457584007913129639936 * (60196966649286098315479479980649104600590145670221202205940488962982888602746 + 115792089237316195423570985008687907853269984665640564039457584007913129639936 * (56894372357833432286646851065163067945090380858798152917975729649663793748197 + 115792089237316195423570985008687907853269984665640564039457584007913129639936 * (105763887907735743592419255121375846115782918776987123720782162858857182891586 + 115792089237316195423570985008687907853269984665640564039457584007913129639936 * (57886836528722687997796400759318613522298741992963848074100785651547605181570 + 115792089237316195423570985008687907853269984665640564039457584007913129639936 * (55195835448483212239657091869769733482613243563941531143363625798444922030860 + 115792089237316195423570985008687907853269984665640564039457584007913129639936 * (62360783481154433616004577739378238576983544060573366001450226193371569311596 + 115792089237316195423570985008687907853269984665640564039457584007913129639936 * (76320097432711746103531768560247871622430178592071671066584345532639030332428 + 115792089237316195423570985008687907853269984665640564039457584007913129639936 * (62621319527378866433715333493973831316206756398981560279975905084983513109623 + 115792089237316195423570985008687907853269984665640564039457584007913129639936 * (1753792450511582302918602048639524513345475741))))))))))))))))) = 1 + final_exp_factor * (46860409338539548497257190294671758323307387938559306998889988931337687997030 + 115792089237316195423570985008687907853269984665640564039457584007913129639936 * (26754874175843296859788496128761836265))"
    unfolding times_limb [of bls_lambda] times_limb [of final_exp_factor]
    unfolding bls_factor_limbs bls_lambda_def
    by (simp only: limb_times) (simp only: arith_simps)
  then show ?thesis
    by blast
qed

lemma bls_group_order: "bls_q ^ 12 = final_exp_factor * (27 * (poly_factor * bls_r)) + 1"
proof -
  define p2 p4 p8 where "p2 = bls_q * bls_q" and "p4 = p2 * p2" and "p8 = p4 * p4"
  have "p2 = 46474385494169629845446740916317553542332154754369547199519455494380440358457 + 115792089237316195423570985008687907853269984665640564039457584007913129639936 * (36478634999528398283973764505026300917277408289702132131650385428866413994057 + 115792089237316195423570985008687907853269984665640564039457584007913129639936 * (1194772652728348624812079333723254060189206909604744866307558080817020177360))"
    unfolding p2_def bls_q_def by (simp only: arith_simps)
  then have p4: "p4 = 41488655536903150107935470771497071611799174461917249561170050709697183697073 + 115792089237316195423570985008687907853269984665640564039457584007913129639936 * (76087892925250109919639215782699246589492253628792168397201051724927689611353 + 115792089237316195423570985008687907853269984665640564039457584007913129639936 * (102863888626173965585095975410979553883623240094516363884408436049879107528355 + 115792089237316195423570985008687907853269984665640564039457584007913129639936 * (74300335975379057170941336005668141997125420314044945946032708862473129627107 + 115792089237316195423570985008687907853269984665640564039457584007913129639936 * (76717120629600232834503045547285292569157049652414146573915193434069550419191 + 115792089237316195423570985008687907853269984665640564039457584007913129639936 * (12327972498897637211642786421824845154615601145008837775981548763358023027)))))"
    unfolding p4_def by (simp only: arith_simps)
  have "p8 = p4 * (41488655536903150107935470771497071611799174461917249561170050709697183697073 + 115792089237316195423570985008687907853269984665640564039457584007913129639936 * (76087892925250109919639215782699246589492253628792168397201051724927689611353 + 115792089237316195423570985008687907853269984665640564039457584007913129639936 * (102863888626173965585095975410979553883623240094516363884408436049879107528355 + 115792089237316195423570985008687907853269984665640564039457584007913129639936 * (74300335975379057170941336005668141997125420314044945946032708862473129627107 + 115792089237316195423570985008687907853269984665640564039457584007913129639936 * (76717120629600232834503045547285292569157049652414146573915193434069550419191 + 115792089237316195423570985008687907853269984665640564039457584007913129639936 * (12327972498897637211642786421824845154615601145008837775981548763358023027))))))"
    unfolding p8_def using p4 by (rule arg_cong)
  also have "\<dots> = 55606463757292032875398744157732642449137456473733326276252894481195754981985 + 115792089237316195423570985008687907853269984665640564039457584007913129639936 * (83993615229632104733020609862481903662050975250498601394765293765264363886489 + 115792089237316195423570985008687907853269984665640564039457584007913129639936 * (1952802541545461757979590877462219521194931005380894640281024007604916581256 + 115792089237316195423570985008687907853269984665640564039457584007913129639936 * (42055485465829908651462044322926320396711911377765803544030502522493287418066 + 115792089237316195423570985008687907853269984665640564039457584007913129639936 * (18080057670042865871401402303550298545743390504872826788698923436578246000301 + 115792089237316195423570985008687907853269984665640564039457584007913129639936 * (9205802728844645838827911270465925486599436128175771573363539525763392048152 + 115792089237316195423570985008687907853269984665640564039457584007913129639936 * (10289215073883197937247058225190689170823435286438031155839668194336527062289 + 115792089237316195423570985008687907853269984665640564039457584007913129639936 * (80889462513401920978524325169600122203553277574785076057981902216126809934540 + 115792089237316195423570985008687907853269984665640564039457584007913129639936 * (81693775033643006736802744244096923141693430909200494136871769603154542391639 + 115792089237316195423570985008687907853269984665640564039457584007913129639936 * (73634929299461376562641217523240110897681462514475384830517452479582456816075 + 115792089237316195423570985008687907853269984665640564039457584007913129639936 * (54650424484680785333270410653601307119033028350165502161303864452729032601313 + 115792089237316195423570985008687907853269984665640564039457584007913129639936 * (1312515448461209479154977550716694802233017308398179496459532694683416)))))))))))"
    unfolding times_limb [of p4] unfolding p4 by (simp only: limb_times) (simp only: arith_simps)
  finally have p8: "p8 = 55606463757292032875398744157732642449137456473733326276252894481195754981985 + 115792089237316195423570985008687907853269984665640564039457584007913129639936 * (83993615229632104733020609862481903662050975250498601394765293765264363886489 + 115792089237316195423570985008687907853269984665640564039457584007913129639936 * (1952802541545461757979590877462219521194931005380894640281024007604916581256 + 115792089237316195423570985008687907853269984665640564039457584007913129639936 * (42055485465829908651462044322926320396711911377765803544030502522493287418066 + 115792089237316195423570985008687907853269984665640564039457584007913129639936 * (18080057670042865871401402303550298545743390504872826788698923436578246000301 + 115792089237316195423570985008687907853269984665640564039457584007913129639936 * (9205802728844645838827911270465925486599436128175771573363539525763392048152 + 115792089237316195423570985008687907853269984665640564039457584007913129639936 * (10289215073883197937247058225190689170823435286438031155839668194336527062289 + 115792089237316195423570985008687907853269984665640564039457584007913129639936 * (80889462513401920978524325169600122203553277574785076057981902216126809934540 + 115792089237316195423570985008687907853269984665640564039457584007913129639936 * (81693775033643006736802744244096923141693430909200494136871769603154542391639 + 115792089237316195423570985008687907853269984665640564039457584007913129639936 * (73634929299461376562641217523240110897681462514475384830517452479582456816075 + 115792089237316195423570985008687907853269984665640564039457584007913129639936 * (54650424484680785333270410653601307119033028350165502161303864452729032601313 + 115792089237316195423570985008687907853269984665640564039457584007913129639936 * (1312515448461209479154977550716694802233017308398179496459532694683416)))))))))))" .
  have "p8 * p4 = p8 * (41488655536903150107935470771497071611799174461917249561170050709697183697073 + 115792089237316195423570985008687907853269984665640564039457584007913129639936 * (76087892925250109919639215782699246589492253628792168397201051724927689611353 + 115792089237316195423570985008687907853269984665640564039457584007913129639936 * (102863888626173965585095975410979553883623240094516363884408436049879107528355 + 115792089237316195423570985008687907853269984665640564039457584007913129639936 * (74300335975379057170941336005668141997125420314044945946032708862473129627107 + 115792089237316195423570985008687907853269984665640564039457584007913129639936 * (76717120629600232834503045547285292569157049652414146573915193434069550419191 + 115792089237316195423570985008687907853269984665640564039457584007913129639936 * (12327972498897637211642786421824845154615601145008837775981548763358023027))))))"
    using p4 by (rule arg_cong)
  also have "\<dots> = final_exp_factor * (27 * (poly_factor * bls_r)) + 1"
    unfolding times_limb [of p8] unfolding p8 bls_factor_limbs poly_factor_def bls_r_def
    by (simp only: limb_times) (simp only: arith_simps)
  moreover have "bls_q ^ 12 = p8 * p4"
    unfolding p8_def p4_def p2_def by (simp add: eval_nat_numeral)
  ultimately show ?thesis
    by (simp only:)
qed

end
