(* ===== verification/Bls12_Witness.thy ===== *)
theory Bls12_Witness
  imports Bls12_Numbers
begin

text \<open>
  The residue witness of \<^verbatim>\<open>bls12_381_hint.rs\<close> is one: the inverses the code takes exist, and its
  result satisfies the equation the guest checks in place of the final exponentiation.
\<close>

section \<open>Inverses\<close>

lemma modinv_some:
  assumes "a * x = 1 + m * (y :: nat)" "1 < m"
  shows "\<exists>i k. modinv a m = Some i \<and> i < m \<and> a * i = 1 + m * k"
proof -
  have "coprime a m"
  proof (rule coprimeI)
    fix c assume "c dvd a" "c dvd m"
    then have "c dvd 1 + m * y" "c dvd m * y"
      unfolding assms(1) [symmetric] by simp_all
    then have "c dvd (1 + m * y) - m * y"
      by (rule dvd_diff_nat)
    then show "is_unit c"
      by simp
  qed
  obtain g u v where e: "extended_gcd (int a) (int m) = (g, u, v)"
    by (cases "extended_gcd (int a) (int m)")
  from extended_gcd_bezout [OF _ _ this] \<open>coprime a m\<close> have g: "g = 1" "int a * u + int m * v = 1"
    by (simp_all add: coprime_iff_gcd_eq_1)
  define i where "i = nat (u mod int m)"
  have i: "int i = u mod int m" "i < m"
    using assms(2) by (simp_all add: i_def nat_less_iff)
  have "int a * (u mod int m) mod int m = (int a * u + int m * v) mod int m"
    by (simp add: mod_simps)
  then have "int (a * i mod m) = int 1"
    using g(2) i(1) assms(2) by (simp add: zmod_int)
  then have "a * i mod m = 1"
    by (simp only: of_nat_eq_iff)
  then have "a * i = 1 + m * (a * i div m)"
    by (metis add.commute mult_div_mod_eq)
  moreover have "modinv a m = Some i"
    by (simp add: modinv_def e g(1) i_def)
  ultimately show ?thesis
    using i(2) by blast
qed

lemma inv_pow_exponent:
  assumes "cyclic_tower T g n"
  shows "\<exists>z. inv_pow_bu T (fq12_pow T g y) e = Inr (fq12_pow T g z) \<and> n dvd y * e + z"
proof -
  obtain v where v: "fq12_inverse T (fq12_pow T g y) = Some (fq12_pow T g v)" "n dvd y + v"
    using cyclic_tower_rules(7) [OF assms] by blast
  have "n dvd y * e + v * e"
    unfolding distrib_right [symmetric] using v(2) by (rule dvd_mult2)
  with v(1) show ?thesis
    by (auto simp: inv_pow_bu_def cyclic_tower_rules(4) [OF assms])
qed

section \<open>The residue witness of BLS12-381\<close>

text \<open>The two parts of the scaling factor cancel what keeps \<open>f\<close> from being a power of \<open>h\<close>-th roots of
  unity, for \<open>h\<close> the final exponentiation factor.\<close>

lemma scaling_cancels:
  fixes a e1 e2 h i k p r y :: nat
  assumes i: "h * 27 * i = 1 + p * y" and k: "h * (10 * p) = 1 + 27 * k"
    and e: "h * (27 * (p * r)) dvd a * h * 27 * i + e1" "h * (27 * (p * r)) dvd a * h * p * 10 + e2"
    and a: "r dvd a"
  shows "h * (27 * (p * r)) dvd h * (a + (e1 + e2))" "h * (27 * (p * r)) dvd (e1 + e2) * (27 * p)"
proof -
  let ?n = "int h * (27 * (int p * int r))"
  have e': "?n dvd int a * int h * 27 * int i + int e1" "?n dvd int a * int h * int p * 10 + int e2"
    using e [THEN int_dvd_int_iff [THEN iffD2]] by simp_all
  have i': "int h * 27 * int i = 1 + int p * int y" and k': "int h * (10 * int p) = 1 + 27 * int k"
    using arg_cong [OF i, of int] arg_cong [OF k, of int] by simp_all
  define d where "d = 1 - int h * 27 * int i - int h * (10 * int p)"
  have sum: "?n dvd (int a * int h * 27 * int i + int e1) + (int a * int h * int p * 10 + int e2)"
    using e' by (rule dvd_add)
  have "coprime 27 (int p)"
  proof (rule coprimeI)
    fix c :: int assume c: "c dvd 27" "c dvd int p"
    then have "c dvd int h * (10 * int p) - 27 * int k"
      by simp
    then show "is_unit c"
      unfolding k' by simp
  qed
  moreover have "27 dvd d" "int p dvd d"
  proof -
    have "d = 27 * (- int k - int h * int i)"
      unfolding d_def k' by simp
    then show "27 dvd d" by simp
    have "d = int p * (- int y - int h * 10)"
      unfolding d_def i' by (simp add: algebra_simps)
    then show "int p dvd d" by simp
  qed
  ultimately have "27 * int p dvd d"
    by (intro divides_mult)
  then have "(27 * int p) * int r dvd d * int a"
    by (rule mult_dvd_mono) (use a in simp)
  then have "int h * ((27 * int p) * int r) dvd int h * (d * int a)"
    by (rule mult_dvd_mono [OF dvd_refl])
  then have n: "?n dvd int h * (d * int a)"
    by (simp only: mult.assoc)
  have "int h * (int a + (int e1 + int e2)) = int h * (d * int a) + int h *
      ((int a * int h * 27 * int i + int e1) + (int a * int h * int p * 10 + int e2))"
    unfolding d_def by algebra
  with n sum have "?n dvd int h * (int a + (int e1 + int e2))"
    by (simp only: dvd_add dvd_mult)
  then have "int (h * (27 * (p * r))) dvd int (h * (a + (e1 + e2)))"
    by simp
  then show "h * (27 * (p * r)) dvd h * (a + (e1 + e2))"
    by (simp only: int_dvd_int_iff)
  obtain b where b: "a = r * b"
    using a ..
  have "(int e1 + int e2) * (27 * int p) =
      ((int a * int h * 27 * int i + int e1) + (int a * int h * int p * 10 + int e2)) * (27 * int p)
      - ?n * (int b * (27 * int i + int p * 10))"
    unfolding b by simp algebra
  with sum have "?n dvd (int e1 + int e2) * (27 * int p)"
    by (simp only: dvd_diff dvd_mult2 dvd_triv_left)
  then have "int (h * (27 * (p * r))) dvd int ((e1 + e2) * (27 * p))"
    by simp
  then show "h * (27 * (p * r)) dvd (e1 + e2) * (27 * p)"
    by (simp only: int_dvd_int_iff)
qed

lemma bls_hint_exponents:
  assumes cyc: "cyclic_tower T g n" and n: "n = final_exp_factor * (27 * (poly_factor * bls_r))"
    and a: "bls_r dvd a"
  shows "\<exists>e X. bls_final_exp_hint T (fq12_pow T g a) = Inr (fq12_pow T g X, fq12_pow T g e) \<and>
    (X * bls_lambda) mod n = (a + e) mod n \<and> n dvd e * (27 * poly_factor)"
proof -
  note rules = cyclic_tower_rules [OF cyc]
  have big: "1 < poly_factor" "1 < final_exp_factor"
    unfolding poly_factor_def final_exp_factor_def by simp_all
  obtain i y where i: "modinv (final_exp_factor * 27) poly_factor = Some i" "i < poly_factor"
    "final_exp_factor * 27 * i = 1 + poly_factor * y"
    using bls_inverse_27 modinv_some big(1) by metis
  obtain l j where l: "modinv bls_lambda final_exp_factor = Some l" "bls_lambda * l = 1 + final_exp_factor * j"
    using bls_lambda_inverse modinv_some big(2) by metis
  obtain k where k: "final_exp_factor * (10 * poly_factor) = 1 + 27 * k"
    using bls_tenth ..
  let ?h = final_exp_factor and ?p = poly_factor
  have "\<exists>z. (if fq12_pow T g (a * ?h * 27) = fq12_one T then Inr (fq12_one T)
      else inv_pow_bu T (fq12_pow T g (a * ?h * 27)) i) = Inr (fq12_pow T g z) \<and> n dvd a * ?h * 27 * i + z"
  proof (cases "n dvd a * ?h * 27")
    case True
    then show ?thesis
      by (intro exI [of _ 0]) (simp add: rules(2,6))
  next
    case False
    then show ?thesis
      using inv_pow_exponent [OF cyc] by (simp add: rules(2,6))
  qed
  then obtain e1 where e1: "(if fq12_pow T g (a * ?h * 27) = fq12_one T then Inr (fq12_one T)
      else inv_pow_bu T (fq12_pow T g (a * ?h * 27)) i) = Inr (fq12_pow T g e1)" "n dvd a * ?h * 27 * i + e1"
    by blast
  obtain b where b: "a = bls_r * b"
    using a ..
  have "a * ?h * ?p * 27 = n * b"
    unfolding b n by (simp only: ac_simps)
  then have "n dvd a * ?h * ?p * 27"
    by (simp only: dvd_triv_left)
  then have cond: "fq12_pow T (fq12_pow T g (a * ?h * ?p)) 27 = fq12_one T"
    by (simp only: rules(2,4,6))
  obtain e2 where e2: "inv_pow_bu T (fq12_pow T g (a * ?h * ?p)) 10 = Inr (fq12_pow T g e2)"
    "n dvd a * ?h * ?p * 10 + e2"
    using inv_pow_exponent [OF cyc] by blast
  have hint: "bls_final_exp_hint T (fq12_pow T g a) = Inr (fq12_pow T g ((a + (e1 + e2)) * l), fq12_pow T g (e1 + e2))"
    unfolding bls_final_exp_hint_def Let_def i(1) l(1) option.case mod_less [OF i(2)] rules(4) e1(1)
    using cond [unfolded rules(4)] e2(1) by (simp add: bind_res_def rules(3,4))
  note cancel = scaling_cancels [OF i(3) k e1(2) [unfolded n] e2(2) [unfolded n] a, folded n]
  have "(a + (e1 + e2)) * l * bls_lambda = (a + (e1 + e2)) * (bls_lambda * l)"
    by (simp only: ac_simps)
  also have "\<dots> = (a + (e1 + e2)) + ?h * (a + (e1 + e2)) * j"
    unfolding l(2) by (simp only: distrib_left mult_1_right ac_simps)
  finally have "((a + (e1 + e2)) * l * bls_lambda) mod n = (a + (e1 + e2)) mod n"
    using cancel(1) by (metis add.commute add_0 dvd_eq_mod_eq_0 dvd_mult2 mod_add_left_eq)
  with hint cancel(2) show ?thesis
    by blast
qed

text \<open>C38. The residue witness of BLS12-381. In a tower whose multiplicative group is cyclic of order
  \<open>q\<^sup>1\<^sup>2 - 1\<close>, every \<open>f\<close> whose final exponentiation \<open>f ^ ((q\<^sup>1\<^sup>2 - 1) / r)\<close> is one makes \<^verbatim>\<open>final_exp_hint\<close>
  return: none of its three inverses is missing, and the elements \<open>c\<close>, \<open>s\<close> it gives satisfy the equation
  the guest checks, \<open>c ^ \<lambda> = f s\<close>, with \<open>s\<close> of an order dividing 27 times the polynomial factor.\<close>

theorem bls_residue_equation:
  assumes cyc: "cyclic_tower T g (bls_q ^ 12 - 1)"
    and f: "f = fq12_pow T g a" "fq12_pow T f ((bls_q ^ 12 - 1) div bls_r) = fq12_one T"
  shows "\<exists>c s. bls_final_exp_hint T f = Inr (c, s) \<and> fq12_pow T c bls_lambda = fq12_mul T f s \<and>
    fq12_pow T s (27 * poly_factor) = fq12_one T"
proof -
  note rules = cyclic_tower_rules [OF cyc]
  let ?n = "bls_q ^ 12 - 1" and ?m = "final_exp_factor * (27 * poly_factor)"
  have n: "?n = final_exp_factor * (27 * (poly_factor * bls_r))"
    unfolding bls_group_order by simp
  then have n': "?n = ?m * bls_r"
    by (simp only: mult.assoc)
  have pos: "0 < ?m" "0 < bls_r"
    using rules(1) unfolding n' by simp_all
  have "?m * bls_r dvd a * ?m"
    using f(2) unfolding f(1) rules(2,4,6) n' using pos(2) by simp
  then have "bls_r dvd a"
    using pos(1) by (metis dvd_mult_cancel mult.commute)
  from bls_hint_exponents [OF cyc n this] show ?thesis
    unfolding f(1) by (metis rules(2,3,4,5,6))
qed

lemma bls_residue_equation_witness:
  "let T = exponent_tower (bls_q ^ 12 - 1) 0; f = power_element bls_r in
    \<exists>c s. bls_final_exp_hint T f = Inr (c, s) \<and> fq12_pow T c bls_lambda = fq12_mul T f s \<and>
      fq12_pow T s (27 * poly_factor) = fq12_one T"
proof -
  let ?n = "bls_q ^ 12 - 1" and ?m = "final_exp_factor * (27 * poly_factor)"
  have n: "?n = ?m * bls_r"
    unfolding bls_group_order by (simp add: mult.assoc)
  have "1 < bls_r" "1 < final_exp_factor" "1 < 27 * poly_factor"
    unfolding bls_r_def final_exp_factor_def poly_factor_def by simp_all
  then have "1 < bls_r" "1 < ?m"
    by (simp_all only: less_1_mult)
  then have big: "1 < ?n" "bls_r < ?n"
    unfolding n using less_1_mult [of ?m bls_r] by simp_all
  have f: "power_element bls_r = fq12_pow (exponent_tower ?n 0) (power_element 1) bls_r"
    unfolding exponent_tower_pow(1) [OF big(1)] using big(2) by simp
  have "?n div bls_r * bls_r = ?n"
    unfolding n by (simp only: dvd_div_mult_self dvd_triv_right)
  then have "fq12_pow (exponent_tower ?n 0) (power_element bls_r) (?n div bls_r) = fq12_one (exponent_tower ?n 0)"
    unfolding exponent_tower_pow(2,3) power_element_eq by (simp add: mult.commute)
  from bls_residue_equation [OF exponent_tower_cyclic [OF big(1)] f this] show ?thesis
    unfolding Let_def .
qed

end
