(* ===== verification/Spec2Isabelle.thy ===== *)
theory Spec2Isabelle
  imports Isa Tools Tables Invariant Hints Liveness Bn254_Witness Bls12_Witness
begin

text \<open>
  A verification library of the RISC-V interpreter: an RV32IM processor with a loader, the custom
  opcodes by which a guest calls the host's precompiles, and the command line that runs a guest.

  \<^bold>\<open>The program.\<close> \<^verbatim>\<open>runner/src/main.rs\<close> reads an executable and an input file, loads the executable
  (\<^verbatim>\<open>elf/src/lib.rs\<close>), builds a processor (\<^verbatim>\<open>rv32im/src/cpu.rs\<close>, over \<^verbatim>\<open>memory.rs\<close> and \<^verbatim>\<open>decode.rs\<close>) and a
  \<^verbatim>\<open>PrecompileHandler\<close> (\<^verbatim>\<open>precompiles/src/lib.rs\<close>), and runs the processor up to a step limit. A step
  executes a base instruction itself and passes the opcodes custom-0 and custom-1 to the handler, which
  reaches the processor's registers and memory and its own streams: the input entries, the hint stream
  and the public output. The tables of moduli, curves and pairings (\<^verbatim>\<open>config.rs\<close>) are fixed when the
  handler is built; an instruction selects a row and an operation with \<^verbatim>\<open>funct7\<close> (\<^verbatim>\<open>encoding.rs\<close>).

  \<^bold>\<open>How the model follows it.\<close> Machine integers are words of their width, so arithmetic wraps as in the
  release build; shift amounts are masked and debug assertions are off, as there. A \<^verbatim>\<open>BigUint\<close> is a
  natural number (\<^verbatim>\<open>modpow\<close> and \<^verbatim>\<open>modinv\<close> are given by their documented meaning), a \<^verbatim>\<open>VecDeque\<close> or
  \<^verbatim>\<open>Vec\<close> a list, the page table a map. A function with effects takes the state and returns it with the
  result, on its error paths as well: the type of results is a sum, whose left side is an error
  (\<open>Failed\<close>), a panic with its message (\<open>Panicked\<close>), or a computation that never ends (\<open>Diverged\<close>, which
  no function returns to a caller in the program; it only travels up to \<open>run\<close>, where it makes the run
  undefined). A handler's computations that can fail are threaded through \<open>compute\<close>: a failure leaves
  the processor as the instruction had it at that point, whatever it had written before.
  A loop whose end is not evident is a \<open>partial_function\<close> into an option, so that \<open>None\<close> is a
  loop that never ends; no fuel is used anywhere. When a loop ends is a theorem, never an assumption.

  \<^bold>\<open>The theories.\<close>

  \<^item> \<^verbatim>\<open>Prelude\<close>: words, results, errors, little-endian bytes, and the collections \<open>mem_laws\<close>, \<open>keeps_wf\<close>
    and \<open>dispatch_defs\<close> that the proofs share. \<^verbatim>\<open>Format\<close>: the number formats of the messages.
  \<^item> \<^verbatim>\<open>Memory\<close> (\<^verbatim>\<open>memory.rs\<close>): pages and the byte, half-word, word and bulk accesses. The locale
    \<open>byte_memory\<close> states the laws of single bytes and derives those of byte sequences; it is
    interpreted on the paged memory. Accesses of every width agree with the byte accesses.
  \<^item> \<^verbatim>\<open>Decode\<close> (\<^verbatim>\<open>decode.rs\<close>): fields and immediates, which invert the manual's instruction formats.
  \<^item> \<^verbatim>\<open>Elf\<close> (\<^verbatim>\<open>elf/src/lib.rs\<close>): the loader, the inputs it accepts and those on which it panics.
  \<^item> \<^verbatim>\<open>Cpu\<close> (\<^verbatim>\<open>cpu.rs\<close>): registers, opcode groups, \<open>step\<close>, \<open>run\<close>; the relations \<open>reaches\<close> (the executed
    steps) and \<open>run_ends\<close>; the locale \<open>custom_handler\<close>, the contract of the trait
    \<^verbatim>\<open>CustomOpHandler\<close>, in which runs are analysed once. \<^verbatim>\<open>Isa\<close>: RV32IM on integers and a flat memory,
    written from the manual, which \<open>step\<close> refines.
  \<^item> \<^verbatim>\<open>Encoding\<close> (\<^verbatim>\<open>encoding.rs\<close>), \<^verbatim>\<open>Config\<close> (\<^verbatim>\<open>config.rs\<close>), \<^verbatim>\<open>Tables\<close>: the constants, the tables, and the published
    parameters the tables are compared with.
  \<^item> \<^verbatim>\<open>Io\<close> (\<^verbatim>\<open>IoState\<close> of \<^verbatim>\<open>precompiles/src/lib.rs\<close>): input entries, hint stream and public output.
  \<^item> \<^verbatim>\<open>Int256\<close> (\<^verbatim>\<open>int256.rs\<close>): byte loops, equal to operations on words of 256 bits.
  \<^item> \<^verbatim>\<open>Hashes\<close> (\<^verbatim>\<open>hashes.rs\<close>): Keccak-f[1600] against the step mappings of the standard; XORIN; SHA-256.
  \<^item> \<^verbatim>\<open>Number\<close>, \<^verbatim>\<open>Bignum\<close>, \<^verbatim>\<open>Sqrt\<close>, \<^verbatim>\<open>Modular\<close>, \<^verbatim>\<open>Operands\<close>, \<^verbatim>\<open>Fp2\<close> (\<^verbatim>\<open>modular.rs\<close>): arithmetic modulo a
    prime from first principles, Euclid's inverse, the square root with its hints, the
    instructions on residues and on pairs with \<open>X\<^sup>2 = -1\<close>.
  \<^item> \<^verbatim>\<open>Shanks\<close>, \<^verbatim>\<open>Ecc\<close> (\<^verbatim>\<open>ecc.rs\<close>): the second square root, the chord and tangent formulas,
    decompression and the non-residue. The locale \<open>coordinate_arith\<close> is what the formulas need of a
    subtraction and an inverse, interpreted on the code's.
  \<^item> \<^verbatim>\<open>Tower\<close>, \<^verbatim>\<open>Bn254\<close>, \<^verbatim>\<open>Bls12\<close>, \<^verbatim>\<open>Pairing\<close> (\<^verbatim>\<open>bn254_hint.rs\<close>, \<^verbatim>\<open>bls12_381_hint.rs\<close>, \<^verbatim>\<open>pairing.rs\<close>): the final
    exponentiation hints over a tower of fields given as a record of operations. \<^verbatim>\<open>Residue\<close>,
    \<^verbatim>\<open>Bn254_Numbers\<close>, \<^verbatim>\<open>Bn254_Witness\<close>, \<^verbatim>\<open>Bls12_Numbers\<close>, \<^verbatim>\<open>Bls12_Witness\<close>: in a tower with a cyclic
    group the hints end and satisfy the equation the guest checks; the numbers are the code's.
  \<^item> \<^verbatim>\<open>Handler\<close> (\<^verbatim>\<open>precompiles/src/lib.rs\<close>): the dispatcher with every branch, its interpretation \<open>machine\<close> of
    \<open>custom_handler\<close>, the contract of a custom instruction, atomicity of failures, the input protocol and
    the public output. \<^verbatim>\<open>Hints\<close>: the pairing hints read back. \<^verbatim>\<open>Invariant\<close>: what holds in every reachable state
    (locale \<open>even_handler\<close>, which extends \<open>custom_handler\<close>), and resuming of interrupted runs.
    \<^verbatim>\<open>Liveness\<close>: which computations end, and so when a run returns.
  \<^item> \<^verbatim>\<open>Runner\<close> (\<^verbatim>\<open>runner/src/main.rs\<close>): both commands from parsed arguments to standard output.
    \<^verbatim>\<open>Tools\<close> (\<^verbatim>\<open>tools/\<close>): the two programs beside the interpreter.

  \<^bold>\<open>What the lemmas show.\<close> Each component has its functional behaviour on every branch, errors and panics
  included, and what it keeps: well-formed pages and registers (\<open>wf_memory\<close>, \<open>wf_cpu\<close>), the bytes outside
  the destination, the tables. Over all components: a step keeps the machine well formed; a step
  that fails changes nothing; a run returns exactly when it meets no endless search of the two
  hint instructions named in \<^verbatim>\<open>Liveness\<close>; what the host supplies is what the guest reads, and what the
  guest publishes is what the command prints.

  \<^bold>\<open>Bounds.\<close> The step limit is a word of 64 bits, and the counter never exceeds it. The shift in the square root of
  \<^verbatim>\<open>ecc.rs\<close> has 32 bits, hence the condition that \<open>2 ^ 33\<close> does not divide \<open>p - 1\<close> where the root is used;
  moduli that are 3 modulo 4, as those of the shipped curves are, satisfy it.

  \<^bold>\<open>Parameters.\<close> The code outside the repository is an argument of the definitions that use it: the
  ELF parser, the seeded random generator, the SHA-256 compression function, the field
  towers with their Miller loops, the files, and the crates the tools call.

  \<^bold>\<open>Not modelled.\<close> Log output, the parsing of the command line, failures of writing to the standard
  output, and the guest programs under \<^verbatim>\<open>tests/\<close>, which run on the interpreter.
\<close>

end
